theory Spec2Isabelle
  imports Main "HOL-Library.Sublist"
begin

section \<open>Strings\<close>

text \<open>
  A Python \<open>str\<close> is modelled as a \<^typ>\<open>string\<close>: a list of characters, each a code
  point below 256. The character classes below are Python's own on that range.
\<close>

definition is_space :: "char \<Rightarrow> bool" where
  \<comment> \<open>\<open>str.isspace\<close> on one character; also the class \<open>\s\<close> of \<open>re\<close>.\<close>
  "is_space c = (of_char c \<in> {9, 10, 11, 12, 13, 28, 29, 30, 31, 32, 133, 160 :: nat})"

definition strip :: "string \<Rightarrow> string" where
  \<comment> \<open>\<open>str.strip()\<close>: whitespace removed at both ends.\<close>
  "strip s = rev (dropWhile is_space (rev (dropWhile is_space s)))"

definition startswith :: "string \<Rightarrow> string \<Rightarrow> bool" where
  "startswith s p = (take (length p) s = p)"

fun join :: "string \<Rightarrow> string list \<Rightarrow> string" where
  \<comment> \<open>\<open>sep.join(xs)\<close>\<close>
  "join sep [] = []"
| "join sep [x] = x"
| "join sep (x # y # ys) = x @ sep @ join sep (y # ys)"

section \<open>The book registry: parsing one line\<close>

definition delim :: string where
  "delim = '' - ''"

fun split_delim :: "string \<Rightarrow> string list" where
  \<comment> \<open>\<open>line.split(' - ')\<close>: the segments between the occurrences of the delimiter,
      found from left to right without overlap.\<close>
  "split_delim [] = [[]]"
| "split_delim (c # cs) =
     (if startswith (c # cs) delim then [] # split_delim (drop 2 cs)
      else (case split_delim cs of
              p # ps \<Rightarrow> (c # p) # ps
            | [] \<Rightarrow> [[c]]))"

record book =
  rating :: string
  date_read :: string
  title :: string
  author :: string
  description :: string

definition parse_book_line :: "string \<Rightarrow> string list \<times> book option" where
  \<comment> \<open>The result is paired with the lines the function prints.\<close>
  "parse_book_line line0 =
     (let line = strip line0 in
      if line = [] then ([], None)
      else
        let parts = map strip (split_delim line) in
        if length parts < 5 then
          ([''Warning: Invalid format in line: '' @ line,
            ''Expected format: rating - date - title - author - description''], None)
        else
          ([], Some \<lparr> rating = parts ! 0, date_read = parts ! 1, title = parts ! 2,
                      author = parts ! 3, description = join delim (drop 4 parts) \<rparr>))"


fun parse_books :: "nat \<Rightarrow> string list \<Rightarrow> string list \<times> book list" where
  \<comment> \<open>The loop of \<open>update_book_registry\<close> over \<open>enumerate(lines, 1)\<close>: \<open>line_num\<close> is
      counted and never read.\<close>
  "parse_books line_num [] = ([], [])"
| "parse_books line_num (line # lines) =
     (let (out, books) = parse_books (Suc line_num) lines in
      if strip line \<noteq> [] \<and> \<not> startswith (strip line) ''#'' then
        (case parse_book_line line of
           (printed, Some b) \<Rightarrow> (printed @ out, b # books)
         | (printed, None) \<Rightarrow> (printed @ out, books))
      else (out, books))"

section \<open>The book registry: rendering\<close>

definition replace_char :: "char \<Rightarrow> string \<Rightarrow> string \<Rightarrow> string" where
  \<comment> \<open>\<open>s.replace(old, new)\<close> for a one-character \<open>old\<close>\<close>
  "replace_char old new s = concat (map (\<lambda>c. if c = old then new else [c]) s)"

definition html_escape :: "string \<Rightarrow> string" where
  \<comment> \<open>\<open>html.escape(s)\<close>, with \<open>quote=True\<close>: five replacements, the ampersand first.\<close>
  "html_escape s =
     replace_char (CHR 0x27) ''&#x27;''
       (replace_char (CHR 0x22) ''&quot;''
         (replace_char CHR ''>'' ''&gt;''
           (replace_char CHR ''<'' ''&lt;''
             (replace_char CHR ''&'' ''&amp;'' s))))"

definition format_date_book :: "string \<Rightarrow> string" where
  \<comment> \<open>\<open>format_date\<close> of the registry script: the date is kept as it is.\<close>
  "format_date_book date_str = date_str"

definition em_dash :: string where
  \<comment> \<open>The character U+2014 of the source, which lies beyond the range of \<^typ>\<open>char\<close>:
      its three bytes in UTF-8.\<close>
  "em_dash = [CHR 0xE2, CHR 0x80, CHR 0x94]"

definition summary_item :: "book \<Rightarrow> string" where
  "summary_item b =
     (let title_escaped = html_escape (title b);
          author_escaped = html_escape (author b);
          rating_escaped = html_escape (rating b);
          date_escaped = html_escape (format_date_book (date_read b))
      in ''                <li>'' @ rating_escaped @ '' '' @ em_dash @ '' '' @ date_escaped
         @ '' '' @ em_dash @ '' <strong>'' @ title_escaped @ ''</strong> by ''
         @ author_escaped @ ''</li>'')"

definition detail_item :: "book \<Rightarrow> string" where
  \<open>detail_item b =
     (let title_escaped = html_escape (title b);
          author_escaped = html_escape (author b);
          description_escaped = html_escape (description b)
      in ''                <li>\<newline>                    <span class="book-title-author"><strong>''
         @ title_escaped @ ''</strong> by '' @ author_escaped
         @ ''</span>\<newline>                    <div class="book-description">''
         @ description_escaped @ ''</div>\<newline>                </li>'')\<close>

definition generate_book_html :: "book list \<Rightarrow> string \<times> string" where
  "generate_book_html books =
     (if books = [] then ([], [])
      else (join ''\<newline>'' (map summary_item books), join ''\<newline>'' (map detail_item books)))"


section \<open>Regular expressions, as the registry script uses them\<close>

text \<open>
  The two patterns of the script are built from literals, the lazy \<open>.*?\<close> (under
  \<open>re.DOTALL\<close>, so that the dot takes every character), the greedy \<open>\s*\<close>, the greedy
  optional group \<open>(?:...)?\<close> and capturing groups. \<open>bt\<close> is the backtracking matcher of
  \<open>re\<close> on these: it returns the first match in the order in which the engine tries the
  alternatives, with the text of the groups and the rest of the input.
\<close>

datatype rx = Lit string | AnyLazy | SpaceStar | Opt "rx list" | Open nat | Close nat

fun weight :: "rx \<Rightarrow> nat" where
  "weight (Opt rs) = Suc (sum_list (map weight rs))"
| "weight r = 1"

record mstate =
  opened :: "nat \<rightharpoonup> string"
  groups :: "nat \<rightharpoonup> string"

definition init :: mstate where
  "init = \<lparr> opened = Map.empty, groups = Map.empty \<rparr>"

function bt :: "rx list \<Rightarrow> string \<Rightarrow> mstate \<Rightarrow> (mstate \<times> string) option" where
  "bt [] s st = Some (st, s)"
| "bt (Lit l # rs) s st =
     (if startswith s l then bt rs (drop (length l) s) st else None)"
| "bt (AnyLazy # rs) s st =
     (case bt rs s st of
        Some r \<Rightarrow> Some r
      | None \<Rightarrow> (case s of [] \<Rightarrow> None | c # cs \<Rightarrow> bt (AnyLazy # rs) cs st))"
| "bt (SpaceStar # rs) s st =
     (case s of
        [] \<Rightarrow> bt rs [] st
      | c # cs \<Rightarrow>
          if is_space c then
            (case bt (SpaceStar # rs) cs st of
               Some r \<Rightarrow> Some r
             | None \<Rightarrow> bt rs s st)
          else bt rs s st)"
| "bt (Opt body # rs) s st =
     (case bt (body @ rs) s st of
        Some r \<Rightarrow> Some r
      | None \<Rightarrow> bt rs s st)"
| "bt (Open k # rs) s st = bt rs s (st\<lparr>opened := (opened st)(k \<mapsto> s)\<rparr>)"
| "bt (Close k # rs) s st =
     bt rs s (case opened st k of
                None \<Rightarrow> st
              | Some s0 \<Rightarrow> st\<lparr>groups := (groups st)(k \<mapsto> take (length s0 - length s) s0)\<rparr>)"
  by pat_completeness auto
termination
  by (relation "inv_image (less_than <*lex*> less_than)
                  (\<lambda>(p, s, st). (sum_list (map weight p), length s))") auto

datatype titem = TChar char | TGroup nat

datatype re_error =
    BadEscape
  | MissingLt
  | MissingGt
  | MissingGroupName
  | BadGroupName
  | InvalidGroupReference nat
  | OctalOutOfRange

definition is_digit :: "char \<Rightarrow> bool" where
  "is_digit c = (48 \<le> (of_char c :: nat) \<and> (of_char c :: nat) \<le> 57)"

definition is_octdigit :: "char \<Rightarrow> bool" where
  "is_octdigit c = (48 \<le> (of_char c :: nat) \<and> (of_char c :: nat) \<le> 55)"

definition is_ascii_letter :: "char \<Rightarrow> bool" where
  "is_ascii_letter c =
     ((97 \<le> (of_char c :: nat) \<and> (of_char c :: nat) \<le> 122) \<or>
      (65 \<le> (of_char c :: nat) \<and> (of_char c :: nat) \<le> 90))"

definition digit_val :: "char \<Rightarrow> nat" where
  "digit_val c = of_char c - 48"

definition dec_val :: "string \<Rightarrow> nat" where
  "dec_val ds = foldl (\<lambda>n d. 10 * n + digit_val d) 0 ds"

definition oct_val :: "string \<Rightarrow> nat" where
  "oct_val ds = foldl (\<lambda>n d. 8 * n + digit_val d) 0 ds"

definition addgroup :: "nat \<Rightarrow> nat \<Rightarrow> nat \<Rightarrow> re_error + titem list \<times> nat" where
  "addgroup ngroups index used =
     (if index > ngroups then Inl (InvalidGroupReference index) else Inr ([TGroup index], used))"

definition escapes :: "char \<rightharpoonup> char" where
  "escapes = [CHR ''a'' \<mapsto> CHR 0x07, CHR ''b'' \<mapsto> CHR 0x08, CHR ''f'' \<mapsto> CHR 0x0C,
              CHR ''n'' \<mapsto> CHR 0x0A, CHR ''r'' \<mapsto> CHR 0x0D, CHR ''t'' \<mapsto> CHR 0x09,
              CHR ''v'' \<mapsto> CHR 0x0B, CHR 0x5C \<mapsto> CHR 0x5C]"

definition template_escape :: "nat \<Rightarrow> string \<Rightarrow> re_error + titem list \<times> nat" where
  \<comment> \<open>One escape of a replacement template, read after its backslash, as \<open>parse_template\<close>
      of \<open>re\<close> does: the items it stands for and the number of characters it takes.
      A group name is a group number in ASCII digits: the patterns have no named group.\<close>
  "template_escape ngroups s =
     (case s of
        [] \<Rightarrow> Inl BadEscape
      | c # r \<Rightarrow>
          if c = CHR ''g'' then
            (case r of
               [] \<Rightarrow> Inl MissingLt
             | b # r' \<Rightarrow>
                 if b \<noteq> CHR ''<'' then Inl MissingLt
                 else
                   let name = takeWhile (\<lambda>x. x \<noteq> CHR ''>'') r' in
                   if length name = length r' then Inl MissingGt
                   else if name = [] then Inl MissingGroupName
                   else if list_all is_digit name then addgroup ngroups (dec_val name) (length name + 3)
                   else Inl BadGroupName)
          else if c = CHR ''0'' then
            (let ds = takeWhile is_octdigit (take 2 r) in
             Inr ([TChar (char_of (oct_val ds mod 256))], Suc (length ds)))
          else if is_digit c then
            (case r of
               [] \<Rightarrow> addgroup ngroups (dec_val [c]) 1
             | d # r' \<Rightarrow>
                 if is_digit d then
                   (if is_octdigit c \<and> is_octdigit d \<and> r' \<noteq> [] \<and> is_octdigit (hd r') then
                      (if oct_val [c, d, hd r'] > 255 then Inl OctalOutOfRange
                       else Inr ([TChar (char_of (oct_val [c, d, hd r']))], 3))
                    else addgroup ngroups (dec_val [c, d]) 2)
                 else addgroup ngroups (dec_val [c]) 1)
          else
            (case escapes c of
               Some e \<Rightarrow> Inr ([TChar e], 1)
             | None \<Rightarrow>
                 if is_ascii_letter c then Inl BadEscape
                 else Inr ([TChar (CHR 0x5C), TChar c], 1)))"

fun parse_template :: "nat \<Rightarrow> string \<Rightarrow> re_error + titem list" where
  "parse_template ngroups [] = Inr []"
| "parse_template ngroups (c # cs) =
     (if c = CHR 0x5C then
        (case template_escape ngroups cs of
           Inl e \<Rightarrow> Inl e
         | Inr (items, used) \<Rightarrow>
             (case parse_template ngroups (drop used cs) of
                Inl e \<Rightarrow> Inl e
              | Inr rest \<Rightarrow> Inr (items @ rest)))
      else
        (case parse_template ngroups cs of
           Inl e \<Rightarrow> Inl e
         | Inr rest \<Rightarrow> Inr (TChar c # rest)))"

fun expand_template :: "titem list \<Rightarrow> mstate \<Rightarrow> string" where
  \<comment> \<open>A group that took no part in the match expands to the empty string.\<close>
  "expand_template [] st = []"
| "expand_template (TChar c # ts) st = c # expand_template ts st"
| "expand_template (TGroup k # ts) st =
     (case groups st k of None \<Rightarrow> [] | Some g \<Rightarrow> g) @ expand_template ts st"

fun sub_scan :: "titem list \<Rightarrow> rx list \<Rightarrow> nat \<Rightarrow> string \<Rightarrow> string" where
  \<comment> \<open>The loop of \<open>pattern.sub\<close>, from left to right: the third argument counts the
      characters of the current match still to be passed over. A match of length zero
      is replaced and the character after it copied; the patterns of the script begin
      with a literal and have no such match.\<close>
  "sub_scan t p (Suc n) (c # cs) = sub_scan t p n cs"
| "sub_scan t p (Suc n) [] = []"
| "sub_scan t p 0 [] =
     (case bt p [] init of None \<Rightarrow> [] | Some (st, r) \<Rightarrow> expand_template t st)"
| "sub_scan t p 0 (c # cs) =
     (case bt p (c # cs) init of
        None \<Rightarrow> c # sub_scan t p 0 cs
      | Some (st, r) \<Rightarrow>
          if length r \<le> length cs
          then expand_template t st @ sub_scan t p (length cs - length r) cs
          else expand_template t st @ c # sub_scan t p 0 cs)"

definition re_sub :: "rx list \<Rightarrow> nat \<Rightarrow> string \<Rightarrow> string \<Rightarrow> re_error + string" where
  \<comment> \<open>\<open>re.sub(pattern, repl, string)\<close>; the second argument is the number of groups of
      the pattern. The template is parsed before the search, so that its errors are
      raised even when nothing matches.\<close>
  "re_sub p ngroups repl s =
     (case parse_template ngroups repl of
        Inl e \<Rightarrow> Inl e
      | Inr t \<Rightarrow> Inr (sub_scan t p 0 s))"


section \<open>The book registry: splicing into the host document\<close>

definition pattern :: "rx list" where
  \<open>pattern =
     [Open 1, Lit ''<div class="books-list">'', AnyLazy, Lit ''</ul>'', SpaceStar, Lit ''</div>'',
      Close 1,
      Opt [SpaceStar, Lit ''<div class="books-separator">'', AnyLazy, Lit ''</div>''],
      Opt [SpaceStar, Lit ''<div class="books-details">'', AnyLazy, Lit ''</ul>'', SpaceStar,
           Lit ''</div>''],
      Open 2, SpaceStar, Lit ''</main>'', Close 2]\<close>

definition pattern_simple :: "rx list" where
  \<open>pattern_simple =
     [Open 1, Lit ''<div class="books-list">'', SpaceStar, Lit ''<ul>'', Close 1,
      Open 2, AnyLazy, Close 2,
      Open 3, Lit ''</ul>'', SpaceStar, Lit ''</div>'', Close 3,
      Open 4, SpaceStar, Lit ''</main>'', Close 4]\<close>

definition replacement_body :: "string \<Rightarrow> string \<Rightarrow> string" where
  \<comment> \<open>The text that both replacement templates share, up to their closing group
      reference.\<close>
  \<open>replacement_body summary_html detail_html =
     ''<div class="books-list">\<newline>            <ul>\<newline>'' @ summary_html
     @ ''\<newline>            </ul>\<newline>        </div>\<newline>\<newline>        <div class="books-separator"></div>\<newline>\<newline>        <div class="books-details">\<newline>            <ul>\<newline>''
     @ detail_html @ ''\<newline>            </ul>\<newline>        </div>''\<close>

definition replacement :: "string \<Rightarrow> string \<Rightarrow> string" where
  "replacement summary_html detail_html =
     replacement_body summary_html detail_html @ [CHR 0x5C, CHR ''2'']"

definition replacement_simple :: "string \<Rightarrow> string \<Rightarrow> string" where
  "replacement_simple summary_html detail_html =
     replacement_body summary_html detail_html @ [CHR 0x5C, CHR ''4'']"

definition splice :: "book list \<Rightarrow> string \<Rightarrow> re_error + string" where
  \<comment> \<open>The part of \<open>update_book_registry\<close> between reading the host document and writing
      it: the text written, or the error that \<open>re.sub\<close> raises.\<close>
  "splice books html_content =
     (let (summary_html, detail_html) = generate_book_html books in
      case re_sub pattern 2 (replacement summary_html detail_html) html_content of
        Inl e \<Rightarrow> Inl e
      | Inr new_html \<Rightarrow>
          if new_html = html_content then
            re_sub pattern_simple 4 (replacement_simple summary_html detail_html) html_content
          else Inr new_html)"

section \<open>The book registry: the script\<close>

datatype 'a fileobj = Missing | Unreadable string | Content 'a

record world =
  books_path :: string
  books_txt :: "string list fileobj"
  registry_path :: string
  registry_html :: "string fileobj"
  registry_write_error :: "string option"

datatype 'a outcome = Returned 'a | Raised re_error

fun show_digits :: "nat \<Rightarrow> nat \<Rightarrow> string" where
  \<comment> \<open>the decimal digits of a number, at most as many as the first argument allows\<close>
  "show_digits 0 n = []"
| "show_digits (Suc k) n =
     (if n < 10 then [char_of (48 + n)]
      else show_digits k (n div 10) @ [char_of (48 + n mod 10)])"

definition show_nat :: "nat \<Rightarrow> string" where
  \<comment> \<open>\<open>str(n)\<close>: a number has no more digits than its value plus one.\<close>
  "show_nat n = show_digits (Suc n) n"

definition check_mark :: string where
  \<comment> \<open>U+2713, in UTF-8\<close>
  "check_mark = [CHR 0xE2, CHR 0x9C, CHR 0x93]"

definition cross_mark :: string where
  \<comment> \<open>U+2717, in UTF-8\<close>
  "cross_mark = [CHR 0xE2, CHR 0x9C, CHR 0x97]"

definition update_book_registry :: "world \<Rightarrow> bool outcome \<times> string list \<times> world" where
  \<comment> \<open>The result, the lines printed and the files afterwards. A write that fails is
      taken to leave the file as it was.\<close>
  "update_book_registry w =
     (case books_txt w of
        Missing \<Rightarrow>
          (Returned False, [''Error: Books file not found at '' @ [CHR 0x27] @ books_path w @ [CHR 0x27]], w)
      | Unreadable e \<Rightarrow> (Returned False, [''Error reading books file: '' @ e], w)
      | Content lines \<Rightarrow>
          let (printed, books) = parse_books 1 lines in
          if books = [] then
            (Returned False, printed @ [''Warning: No books found in books.txt''], w)
          else
            let printed = printed @ [''Found '' @ show_nat (length books) @ '' book(s)''] in
            (case registry_html w of
               Missing \<Rightarrow>
                 (Returned False,
                  printed @ [''Error: book-registry.html not found at '' @ [CHR 0x27]
                             @ registry_path w @ [CHR 0x27]], w)
             | Unreadable e \<Rightarrow>
                 (Returned False, printed @ [''Error reading book-registry.html: '' @ e], w)
             | Content html_content \<Rightarrow>
                 (case splice books html_content of
                    Inl err \<Rightarrow> (Raised err, printed, w)
                  | Inr new_html \<Rightarrow>
                      (case registry_write_error w of
                         None \<Rightarrow>
                           (Returned True,
                            printed @ [check_mark @ '' Updated book-registry.html with ''
                                       @ show_nat (length books) @ '' book(s)''],
                            w\<lparr>registry_html := Content new_html\<rparr>)
                       | Some e \<Rightarrow>
                           (Returned False,
                            printed @ [''Error writing book-registry.html: '' @ e], w)))))"

definition main_registry :: "world \<Rightarrow> nat \<times> string list \<times> world" where
  \<comment> \<open>\<open>sys.exit(main())\<close>: the exit code of the process, the lines printed and the
      files afterwards. An exception that nothing catches ends the process with code 1.\<close>
  "main_registry w =
     (case update_book_registry w of
        (Returned True, printed, w') \<Rightarrow>
          (0, printed @ [check_mark @ '' Book registry updated successfully!''], w')
      | (Returned False, printed, w') \<Rightarrow>
          (1, printed @ [cross_mark @ '' Failed to update book registry''], w')
      | (Raised e, printed, w') \<Rightarrow> (1, printed, w'))"


section \<open>The article converter: dates\<close>

datatype value_error = ValueError

definition strptime_month :: "string \<Rightarrow> (nat \<times> string) option" where
  \<comment> \<open>the group \<open>1[0-2]|0[1-9]|[1-9]\<close> that \<open>strptime\<close> compiles for \<open>%m\<close>: the value read
      and the rest of the input\<close>
  "strptime_month s =
     (case s of
        [] \<Rightarrow> None
      | a # r \<Rightarrow>
          if a = CHR ''1'' \<and> r \<noteq> [] \<and> hd r \<in> set ''012'' then Some (dec_val [a, hd r], tl r)
          else if a = CHR ''0'' \<and> r \<noteq> [] \<and> hd r \<in> set ''123456789'' then Some (dec_val [a, hd r], tl r)
          else if a \<in> set ''123456789'' then Some (dec_val [a], r)
          else None)"

definition strptime_day :: "string \<Rightarrow> (nat \<times> string) option" where
  \<comment> \<open>the group \<open>3[0-1]|[1-2]\d|0[1-9]|[1-9]| [1-9]\<close> for \<open>%d\<close>\<close>
  "strptime_day s =
     (case s of
        [] \<Rightarrow> None
      | a # r \<Rightarrow>
          if a = CHR ''3'' \<and> r \<noteq> [] \<and> hd r \<in> set ''01'' then Some (dec_val [a, hd r], tl r)
          else if a \<in> set ''12'' \<and> r \<noteq> [] \<and> is_digit (hd r) then Some (dec_val [a, hd r], tl r)
          else if a = CHR ''0'' \<and> r \<noteq> [] \<and> hd r \<in> set ''123456789'' then Some (dec_val [a, hd r], tl r)
          else if a \<in> set ''123456789'' then Some (dec_val [a], r)
          else if a = CHR '' '' \<and> r \<noteq> [] \<and> hd r \<in> set ''123456789'' then Some (dec_val [hd r], tl r)
          else None)"

definition is_leap :: "nat \<Rightarrow> bool" where
  "is_leap y = (y mod 4 = 0 \<and> (y mod 100 \<noteq> 0 \<or> y mod 400 = 0))"

definition days_in_month :: "nat \<Rightarrow> nat \<Rightarrow> nat" where
  "days_in_month y m =
     (if m = 2 then (if is_leap y then 29 else 28)
      else if m \<in> {4, 6, 9, 11} then 30 else 31)"

definition strptime_ymd :: "string \<Rightarrow> value_error + nat \<times> nat \<times> nat" where
  \<comment> \<open>\<open>datetime.strptime(s, "%Y-%m-%d")\<close>: the format compiles to
      \<open>(\d\d\d\d)-(1[0-2]|0[1-9]|[1-9])-(3[0-1]|[1-2]\d|0[1-9]|[1-9]| [1-9])\<close>, matched at the
      start of the input; input left over, and a date that does not exist, are errors.\<close>
  "strptime_ymd s =
     (if length s < 4 \<or> \<not> list_all is_digit (take 4 s) then Inl ValueError
      else
        let y = dec_val (take 4 s); s1 = drop 4 s in
        if \<not> startswith s1 ''-'' \<or> s1 = [] then Inl ValueError
        else
          (case strptime_month (drop 1 s1) of
             None \<Rightarrow> Inl ValueError
           | Some (m, s2) \<Rightarrow>
               if \<not> startswith s2 ''-'' \<or> s2 = [] then Inl ValueError
               else
                 (case strptime_day (drop 1 s2) of
                    None \<Rightarrow> Inl ValueError
                  | Some (d, s3) \<Rightarrow>
                      if s3 \<noteq> [] then Inl ValueError
                      else if y < 1 \<or> d > days_in_month y m then Inl ValueError
                      else Inr (y, m, d))))"

definition month_name :: "nat \<Rightarrow> string" where
  \<comment> \<open>\<open>%B\<close>, in the locale the script runs with\<close>
  "month_name m =
     [''January'', ''February'', ''March'', ''April'', ''May'', ''June'', ''July'',
      ''August'', ''September'', ''October'', ''November'', ''December''] ! (m - 1)"

definition two_digits :: "nat \<Rightarrow> string" where
  \<comment> \<open>\<open>%d\<close>\<close>
  "two_digits d = [char_of (48 + d div 10), char_of (48 + d mod 10)]"

definition strftime_long :: "nat \<Rightarrow> nat \<Rightarrow> nat \<Rightarrow> string" where
  \<comment> \<open>\<open>strftime("%B %d, %Y")\<close>; the year is printed without padding, as the C library
      of Linux does.\<close>
  "strftime_long y m d = month_name m @ '' '' @ two_digits d @ '', '' @ show_nat y"

datatype pyval =
    PyDatetime nat nat nat
  | PyStr string
  | PyOther string  \<comment> \<open>any other value, with what \<open>str\<close> makes of it\<close>

definition format_date :: "pyval \<Rightarrow> string" where
  "format_date date_input =
     (case date_input of
        PyDatetime y m d \<Rightarrow> strftime_long y m d
      | PyStr s \<Rightarrow>
          (case strptime_ymd s of
             Inr (y, m, d) \<Rightarrow> strftime_long y m d
           | Inl ValueError \<Rightarrow> s)
      | PyOther shown \<Rightarrow> shown)"

section \<open>The article converter: slugs\<close>

definition to_lower :: "char \<Rightarrow> char" where
  \<comment> \<open>\<open>str.lower\<close> on one character\<close>
  "to_lower c =
     (let n = (of_char c :: nat) in
      if (65 \<le> n \<and> n \<le> 90) \<or> (192 \<le> n \<and> n \<le> 222 \<and> n \<noteq> 215) then char_of (n + 32) else c)"

definition lower :: "string \<Rightarrow> string" where
  "lower s = map to_lower s"

definition is_word :: "char \<Rightarrow> bool" where
  \<comment> \<open>the class \<open>\w\<close> of \<open>re\<close>: letters, digits and other numeric characters, and the
      underscore\<close>
  "is_word c =
     (let n = (of_char c :: nat) in
      (48 \<le> n \<and> n \<le> 57) \<or> (65 \<le> n \<and> n \<le> 90) \<or> n = 95 \<or> (97 \<le> n \<and> n \<le> 122) \<or>
      n \<in> {170, 178, 179, 181, 185, 186, 188, 189, 190} \<or>
      (192 \<le> n \<and> n \<noteq> 215 \<and> n \<noteq> 247))"

definition sub_each :: "(char \<Rightarrow> bool) \<Rightarrow> string \<Rightarrow> string \<Rightarrow> string" where
  \<comment> \<open>\<open>re.sub\<close> of a character class: every character of the class is replaced.\<close>
  "sub_each cls repl s = concat (map (\<lambda>c. if cls c then repl else [c]) s)"

function sub_runs :: "(char \<Rightarrow> bool) \<Rightarrow> string \<Rightarrow> string \<Rightarrow> string" where
  \<comment> \<open>\<open>re.sub\<close> of a character class under \<open>+\<close>: from left to right, the longest run of
      the class at each place is replaced.\<close>
  "sub_runs cls repl [] = []"
| "sub_runs cls repl (c # cs) =
     (if cls c then repl @ sub_runs cls repl (dropWhile cls cs)
      else c # sub_runs cls repl cs)"
  by pat_completeness auto
termination
  by (relation "measure (\<lambda>(cls, repl, s). length s)")
     (auto simp: length_dropWhile_le less_Suc_eq_le)

definition strip_chars :: "char set \<Rightarrow> string \<Rightarrow> string" where
  \<comment> \<open>\<open>s.strip(chars)\<close>\<close>
  "strip_chars chars s =
     rev (dropWhile (\<lambda>c. c \<in> chars) (rev (dropWhile (\<lambda>c. c \<in> chars) s)))"

definition slugify :: "string \<Rightarrow> string" where
  "slugify text0 =
     (let text = lower text0;
          text = sub_each (\<lambda>c. \<not> (is_word c \<or> is_space c \<or> c = CHR ''-'')) [] text;
          text = sub_runs (\<lambda>c. c = CHR ''-'' \<or> is_space c) ''-'' text
      in strip_chars {CHR ''-''} text)"


section \<open>The article converter: the script\<close>

definition generate_html_template :: "string \<Rightarrow> string \<Rightarrow> string \<Rightarrow> string \<Rightarrow> string \<Rightarrow> string" where
  \<comment> \<open>The first two arguments are the constants \<open>CSS_STYLES\<close> and \<open>NAVIGATION\<close> of the
      script, fixed texts that are inserted as they are.\<close>
  \<open>generate_html_template css_styles navigation title_text date content_html =
     (let title_escaped = html_escape title_text;
          date_escaped = (if date \<noteq> [] then html_escape date else [])
      in ''<!DOCTYPE html>\<newline><html lang="en">\<newline><head>\<newline>    <meta charset="UTF-8">\<newline>    <meta name="viewport" content="width=device-width, initial-scale=1.0">\<newline>    <title>''
         @ title_escaped @ '' - Ken Gatera</title>\<newline>    <style>\<newline>'' @ css_styles
         @ ''\<newline>    </style>\<newline></head>\<newline><body>\<newline>    <nav>\<newline>        <ul>\<newline>'' @ navigation
         @ ''\<newline>        </ul>\<newline>    </nav>\<newline>\<newline>    <main>\<newline>        <article class="article-container">\<newline>            <header class="article-header">\<newline>                <h1>''
         @ title_escaped @ ''</h1>\<newline>                <div class="article-meta">'' @ date_escaped
         @ ''</div>\<newline>            </header>\<newline>\<newline>            <div class="article-content">\<newline>''
         @ content_html
         @ ''\<newline>            </div>\<newline>\<newline>            <a href="../../blog.html" class="back-to-blog">Back to Blog</a>\<newline>        </article>\<newline>    </main>\<newline>\<newline>    <footer>\<newline>        <p>&copy; 2025 Ken Gatera. All rights reserved.</p>\<newline>    </footer>\<newline></body>\<newline></html>\<newline>'')\<close>

record post =
  metadata_title :: "string option"
  metadata_date :: "pyval option"
  content :: string

record md_env =
  css_styles :: string
  navigation :: string
  path_exists :: "string \<Rightarrow> bool"
  frontmatter_load :: "string \<Rightarrow> string + post"
    \<comment> \<open>opening and parsing the file: the post, or the message of the exception\<close>
  markdown_convert :: "string \<Rightarrow> string"
  write_file_error :: "string \<Rightarrow> string option"

definition is_absolute :: "string \<Rightarrow> bool" where
  "is_absolute p = startswith p ''/''"

definition path_join :: "string \<Rightarrow> string \<Rightarrow> string" where
  \<comment> \<open>\<open>Path(a) / b\<close> for a relative \<open>b\<close>\<close>
  "path_join a b = a @ ''/'' @ b"

definition path_name :: "string \<Rightarrow> string" where
  \<comment> \<open>\<open>Path(p).name\<close>: the last component\<close>
  "path_name p = rev (takeWhile (\<lambda>c. c \<noteq> CHR ''/'') (rev p))"

definition truthy :: "pyval \<Rightarrow> bool" where
  \<comment> \<open>the truth value of a date read from the metadata: a string is false when empty\<close>
  "truthy v = (case v of PyStr s \<Rightarrow> s \<noteq> [] | _ \<Rightarrow> True)"

definition convert_markdown_to_html ::
    "md_env \<Rightarrow> string \<Rightarrow> string option \<Rightarrow> string option \<times> string list \<times> (string \<times> string) list" where
  \<comment> \<open>The path returned (\<open>None\<close> on an error), the lines printed and the files written,
      each with its text.\<close>
  "convert_markdown_to_html env md_file_path output_dir =
     (let md_path =
            (if \<not> path_exists env md_file_path \<and> \<not> is_absolute md_file_path
                \<and> path_exists env (path_join ''drafts'' md_file_path)
             then path_join ''drafts'' md_file_path else md_file_path)
      in
      if \<not> path_exists env md_path then
        (None, [''Error: File '' @ [CHR 0x27] @ md_file_path @ [CHR 0x27] @ '' not found.''], [])
      else
        (case frontmatter_load env md_path of
           Inl e \<Rightarrow>
             (None, [''Error reading file '' @ [CHR 0x27] @ md_file_path @ [CHR 0x27] @ '': '' @ e], [])
         | Inr p \<Rightarrow>
             let title_text = (case metadata_title p of None \<Rightarrow> ''Untitled'' | Some t \<Rightarrow> t);
                 date = (case metadata_date p of None \<Rightarrow> PyStr [] | Some d \<Rightarrow> d);
                 formatted_date = (if truthy date then format_date date else []);
                 html_content = markdown_convert env (content p);
                 output_path = (case output_dir of Some d \<Rightarrow> d | None \<Rightarrow> ''posts'');
                 html_filename = ''article-'' @ slugify title_text @ ''.html'';
                 html_file_path = path_join output_path html_filename;
                 html_output = generate_html_template (css_styles env) (navigation env)
                                 title_text formatted_date html_content
             in
             (case write_file_error env html_file_path of
                None \<Rightarrow>
                  (Some html_file_path,
                   [check_mark @ '' Converted '' @ [CHR 0x27] @ path_name md_path @ [CHR 0x27]
                    @ '' to '' @ [CHR 0x27] @ ''posts/'' @ html_filename @ [CHR 0x27]],
                   [(html_file_path, html_output)])
              | Some e \<Rightarrow>
                  (None,
                   [''Error writing file '' @ [CHR 0x27] @ html_file_path @ [CHR 0x27] @ '': '' @ e],
                   []))))"

definition usage :: "string list" where
  "usage =
     [''Usage: python md_to_html.py <markdown_file.md> [output_dir]'',
      ''\<newline>Example:'',
      ''  python md_to_html.py drafts/first-blog-post.md'',
      ''  python md_to_html.py first-blog-post.md  (will look in drafts/)'',
      ''  python md_to_html.py drafts/my-post.md output/  (custom output)'']"

definition main_article :: "md_env \<Rightarrow> string list \<Rightarrow> nat \<times> string list \<times> (string \<times> string) list" where
  \<comment> \<open>The script run with \<open>sys.argv = argv\<close>: the exit code of the process, the lines
      printed and the files written. \<open>main\<close> leaves through \<open>sys.exit(1)\<close> on too few
      arguments; otherwise it returns, whatever the conversion returned, and the
      process ends with code 0.\<close>
  "main_article env argv =
     (if length argv < 2 then (1, usage, [])
      else
        let md_file = argv ! 1;
            output_dir = (if length argv > 2 then Some (argv ! 2) else None);
            (result, printed, written) = convert_markdown_to_html env md_file output_dir
        in (0, printed, written))"


section \<open>Notions of the specification\<close>

definition no_outer_space :: "string \<Rightarrow> bool" where
  \<comment> \<open>no leading and no trailing whitespace\<close>
  "no_outer_space s = (s = [] \<or> (\<not> is_space (hd s) \<and> \<not> is_space (last s)))"

function html_unescape :: "string \<Rightarrow> string" where
  \<comment> \<open>the five character references that \<open>html.escape\<close> writes, read back\<close>
  "html_unescape [] = []"
| "html_unescape (c # cs) =
     (if startswith (c # cs) ''&amp;'' then CHR ''&'' # html_unescape (drop 4 cs)
      else if startswith (c # cs) ''&lt;'' then CHR ''<'' # html_unescape (drop 3 cs)
      else if startswith (c # cs) ''&gt;'' then CHR ''>'' # html_unescape (drop 3 cs)
      else if startswith (c # cs) ''&quot;'' then CHR 0x22 # html_unescape (drop 5 cs)
      else if startswith (c # cs) ''&#x27;'' then CHR 0x27 # html_unescape (drop 5 cs)
      else c # html_unescape cs)"
  by pat_completeness auto
termination
  by (relation "measure length") auto

fun strip_tags :: "bool \<Rightarrow> string \<Rightarrow> string" where
  \<comment> \<open>the text outside the tags; the flag says whether the reader is inside a tag\<close>
  "strip_tags in_tag [] = []"
| "strip_tags False (c # cs) = (if c = CHR ''<'' then strip_tags True cs else c # strip_tags False cs)"
| "strip_tags True (c # cs) = (if c = CHR ''>'' then strip_tags False cs else strip_tags True cs)"

definition text_content :: "string \<Rightarrow> string" where
  "text_content s = html_unescape (strip_tags False s)"

definition summary_text :: "book \<Rightarrow> string" where
  \<comment> \<open>what a reader sees of a summary line: the fields as they were given\<close>
  "summary_text b =
     ''                '' @ rating b @ '' '' @ em_dash @ '' '' @ date_read b @ '' '' @ em_dash
     @ '' '' @ title b @ '' by '' @ author b"

definition detail_text :: "book \<Rightarrow> string" where
  "detail_text b =
     ''                \<newline>                    '' @ title b @ '' by '' @ author b
     @ ''\<newline>                    '' @ description b @ ''\<newline>                ''"

definition is_punctuation :: "char \<Rightarrow> bool" where
  \<comment> \<open>\<open>string.punctuation\<close>\<close>
  \<open>is_punctuation c = (c \<in> set (''!"#$%&()*+,-./:;<=>?@[]^_`{|}~'' @ [CHR 0x27, CHR 0x5C]))\<close>

fun collapse_runs :: "bool \<Rightarrow> string \<Rightarrow> string" where
  \<comment> \<open>each run of whitespace and hyphens becomes one hyphen; the flag says whether the
      character before belonged to a run\<close>
  "collapse_runs in_run [] = []"
| "collapse_runs in_run (c # cs) =
     (if c = CHR ''-'' \<or> is_space c
      then (if in_run then collapse_runs True cs else CHR ''-'' # collapse_runs True cs)
      else c # collapse_runs False cs)"

definition slug_spec :: "string \<Rightarrow> string" where
  \<comment> \<open>the slug as the specification words it\<close>
  "slug_spec t =
     (let lowered = map to_lower t;
          kept = filter (\<lambda>c. is_word c \<or> is_space c \<or> c = CHR ''-'') lowered;
          collapsed = collapse_runs False kept
      in rev (dropWhile (\<lambda>c. c = CHR ''-'') (rev (dropWhile (\<lambda>c. c = CHR ''-'') collapsed))))"


fun search :: "rx list \<Rightarrow> string \<Rightarrow> (nat \<times> mstate \<times> string) option" where
  \<comment> \<open>the leftmost match: where it starts, its groups, and the input after it\<close>
  "search p [] = (case bt p [] init of None \<Rightarrow> None | Some (st, r) \<Rightarrow> Some (0, st, r))"
| "search p (c # cs) =
     (case bt p (c # cs) init of
        Some (st, r) \<Rightarrow> Some (0, st, r)
      | None \<Rightarrow> (case search p cs of None \<Rightarrow> None | Some (i, st, r) \<Rightarrow> Some (Suc i, st, r)))"

definition esc_char :: "char \<Rightarrow> string" where
  \<comment> \<open>what one pass of escaping writes for one character\<close>
  "esc_char c =
     (if c = CHR ''&'' then ''&amp;'' else if c = CHR ''<'' then ''&lt;''
      else if c = CHR ''>'' then ''&gt;'' else if c = CHR 0x22 then ''&quot;''
      else if c = CHR 0x27 then ''&#x27;'' else [c])"





function matches :: "rx list \<Rightarrow> string \<Rightarrow> mstate \<Rightarrow> mstate \<Rightarrow> string \<Rightarrow> bool" where
  \<comment> \<open>what a match is, whatever the order in which the engine looks for it: the
      pattern takes the input down to the rest \<open>r\<close> and leaves the groups \<open>st'\<close>\<close>
  "matches [] s st st' r = (st' = st \<and> r = s)"
| "matches (Lit l # rs) s st st' r =
     (startswith s l \<and> matches rs (drop (length l) s) st st' r)"
| "matches (AnyLazy # rs) s st st' r = (\<exists>n\<le>length s. matches rs (drop n s) st st' r)"
| "matches (SpaceStar # rs) s st st' r =
     (\<exists>n\<le>length s. list_all is_space (take n s) \<and> matches rs (drop n s) st st' r)"
| "matches (Opt body # rs) s st st' r =
     (matches (body @ rs) s st st' r \<or> matches rs s st st' r)"
| "matches (Open k # rs) s st st' r = matches rs s (st\<lparr>opened := (opened st)(k \<mapsto> s)\<rparr>) st' r"
| "matches (Close k # rs) s st st' r =
     matches rs s (case opened st k of
                None \<Rightarrow> st
              | Some s0 \<Rightarrow> st\<lparr>groups := (groups st)(k \<mapsto> take (length s0 - length s) s0)\<rparr>) st' r"
  by pat_completeness auto
termination
  by (relation "measure (\<lambda>(p, s, st, st', r). sum_list (map weight p))") auto

text \<open>
  \<open>frame p k doc out\<close>: \<open>out\<close> is \<open>doc\<close> but for the matches of \<open>p\<close>. Before the
  leftmost match nothing has changed; the match has become some new text followed by
  its group \<open>k\<close>, whitespace and \<open></main>\<close>, as it was; what follows the match
  is framed in the same way.
\<close>

inductive frame :: "rx list \<Rightarrow> nat \<Rightarrow> string \<Rightarrow> string \<Rightarrow> bool" for p :: "rx list" and k :: nat where
  untouched: "search p doc = None \<Longrightarrow> frame p k doc doc"
| replaced:
    "search p doc = Some (i, st, r) \<Longrightarrow> groups st k = Some (ws @ ''</main>'') \<Longrightarrow>
     list_all is_space ws \<Longrightarrow> drop i doc = old @ ws @ ''</main>'' @ r \<Longrightarrow>
     frame p k r rest \<Longrightarrow>
     frame p k doc (take i doc @ new @ ws @ ''</main>'' @ rest)"

definition is_markup :: "char \<Rightarrow> bool" where
  \<comment> \<open>the angle brackets and the two quotes\<close>
  "is_markup c = (c \<in> {CHR ''<'', CHR ''>'', CHR 0x22, CHR 0x27})"

fun lines_of :: "string list \<Rightarrow> string" where
  \<comment> \<open>the lines, a line break before each but the first\<close>
  "lines_of [] = []"
| "lines_of (x # xs) = x @ concat (map (\<lambda>y. CHR ''\<newline>'' # y) xs)"

definition escaped :: "string \<Rightarrow> string" where
  \<comment> \<open>escaping in one pass: a character reference for each ampersand, angle bracket
      and quote, every other character as it is\<close>
  "escaped s = concat (map esc_char s)"

definition summary_line :: "book \<Rightarrow> string" where
  \<comment> \<open>the summary line of a record: the fixed markup around the escaped fields\<close>
  "summary_line b =
     ''                <li>'' @ escaped (rating b) @ '' '' @ em_dash @ '' '' @ escaped (date_read b)
     @ '' '' @ em_dash @ '' <strong>'' @ escaped (title b) @ ''</strong> by '' @ escaped (author b)
     @ ''</li>''"

definition detail_entry :: "book \<Rightarrow> string" where
  \<open>detail_entry b =
     ''                <li>\<newline>                    <span class="book-title-author"><strong>''
     @ escaped (title b) @ ''</strong> by '' @ escaped (author b)
     @ ''</span>\<newline>                    <div class="book-description">''
     @ escaped (description b) @ ''</div>\<newline>                </li>''\<close>

definition summary_markup :: string where
  \<comment> \<open>the angle brackets and quotes of the markup of one summary line\<close>
  "summary_markup = ''<><><><>''"

definition detail_markup :: string where
  \<open>detail_markup = ''<><""><><><><""><><>''\<close>

section \<open>Strings: facts\<close>

lemma last_dropWhile: "dropWhile P xs \<noteq> [] \<Longrightarrow> last (dropWhile P xs) = last xs"
  by (induction xs) (auto split: if_splits)

lemma strip_Nil [simp]: "strip [] = []"
  by (simp add: strip_def)

lemma no_outer_space_strip: "no_outer_space (strip s)"
proof (cases "strip s = []")
  case True
  then show ?thesis by (simp add: no_outer_space_def)
next
  case False
  let ?a = "dropWhile is_space s"
  let ?b = "dropWhile is_space (rev ?a)"
  from False have b: "?b \<noteq> []" by (simp add: strip_def)
  have a: "?a \<noteq> []"
  proof
    assume e: "?a = []"
    have "?b = []" unfolding e by simp
    with b show False by blast
  qed
  have "\<not> is_space (hd ?b)" using b by (rule hd_dropWhile)
  then have l: "\<not> is_space (last (strip s))"
    using b by (simp add: strip_def last_rev)
  have "last ?b = last (rev ?a)" using b by (rule last_dropWhile)
  also have "\<dots> = hd ?a" using a by (simp add: last_rev)
  finally have "hd (strip s) = hd ?a" using b by (simp add: strip_def hd_rev)
  moreover have "\<not> is_space (hd ?a)" using a by (rule hd_dropWhile)
  ultimately show ?thesis using l by (simp add: no_outer_space_def)
qed

lemma split_delim_not_Nil [simp]: "split_delim s \<noteq> []"
  by (induction s rule: split_delim.induct) (auto split: list.splits)

lemma hd_join: "x \<noteq> [] \<Longrightarrow> hd (join sep (x # xs)) = hd x"
  by (cases xs) auto

lemma join_not_Nil: "xs \<noteq> [] \<Longrightarrow> last xs \<noteq> [] \<Longrightarrow> join sep xs \<noteq> []"
  by (induction sep xs rule: join.induct) auto

lemma last_join: "xs \<noteq> [] \<Longrightarrow> last xs \<noteq> [] \<Longrightarrow> last (join sep xs) = last (last xs)"
  by (induction sep xs rule: join.induct) (auto simp: join_not_Nil)

section \<open>Parsing a line of the book file\<close>

lemma parse_book_line_parts:
  assumes "5 \<le> length (split_delim (strip line))"
  shows "parse_book_line line =
    ([], Some \<lparr> rating = strip (split_delim (strip line) ! 0),
                 date_read = strip (split_delim (strip line) ! 1),
                 title = strip (split_delim (strip line) ! 2),
                 author = strip (split_delim (strip line) ! 3),
                 description = join delim (map strip (drop 4 (split_delim (strip line)))) \<rparr>)"
proof -
  have "strip line \<noteq> []" using assms by auto
  then show ?thesis using assms
    by (simp add: parse_book_line_def Let_def drop_map)
qed

lemma parse_book_line_Some:
  assumes "parse_book_line line = (printed, Some b)"
  shows "5 \<le> length (split_delim (strip line))"
  using assms by (auto simp: parse_book_line_def Let_def split: if_splits)

text \<open>
  C3 (as amended). A line whose trimmed form splits on \<open>' - '\<close> into at least five
  segments parses to a record, with nothing printed: rating, date, title and author are
  the segments 0 to 3, each stripped of surrounding whitespace, and the description is
  the segments from 4 on, each stripped, joined again with \<open>' - '\<close>. The line is
  neither rejected nor cut short.
\<close>

theorem parse_book_line_fields:
  assumes "5 \<le> length (split_delim (strip line))"
  shows "parse_book_line line =
    ([], Some \<lparr> rating = strip (split_delim (strip line) ! 0),
                 date_read = strip (split_delim (strip line) ! 1),
                 title = strip (split_delim (strip line) ! 2),
                 author = strip (split_delim (strip line) ! 3),
                 description = join delim (map strip (drop 4 (split_delim (strip line)))) \<rparr>)"
  using assms by (rule parse_book_line_parts)

theorem parse_book_line_fields_witness:
  "5 \<le> length (split_delim (strip ''4 stars - 2024-01-01 - Title - Author - Part one - Part two'')) \<and>
   parse_book_line ''4 stars - 2024-01-01 - Title - Author - Part one - Part two'' =
     ([], Some \<lparr> rating = ''4 stars'', date_read = ''2024-01-01'', title = ''Title'',
                  author = ''Author'', description = ''Part one - Part two'' \<rparr>)"
proof -
  let ?L = "''4 stars - 2024-01-01 - Title - Author - Part one - Part two''"
  have h: "5 \<le> length (split_delim (strip ?L))" by code_simp
  have e: "split_delim (strip ?L) =
      [''4 stars'', ''2024-01-01'', ''Title'', ''Author'', ''Part one'', ''Part two'']"
    by code_simp
  have s: "map strip [''4 stars'', ''2024-01-01'', ''Title'', ''Author'', ''Part one'', ''Part two'']
        = [''4 stars'', ''2024-01-01'', ''Title'', ''Author'', ''Part one'', ''Part two'']"
    by code_simp
  show ?thesis using h parse_book_line_fields [OF h] s unfolding e
    by (simp add: delim_def)
qed

text \<open>
  C3 fails as it is stated: the segments of the line below are \<open>'5 '\<close>, \<open>'d'\<close>, \<open>'t'\<close>,
  \<open>'a'\<close>, \<open>'x '\<close> and \<open>'y'\<close>, so that segment 0 is \<open>'5 '\<close> and the segments from 4 on join
  to \<open>'x  - y'\<close>; the record has the rating \<open>'5'\<close> and the description \<open>'x - y'\<close>.
\<close>

theorem parse_book_line_segments_counterexample:
  "5 \<le> length (split_delim (strip ''5  - d - t - a - x  - y'')) \<and>
   split_delim (strip ''5  - d - t - a - x  - y'') ! 0 = ''5 '' \<and>
   join delim (drop 4 (split_delim (strip ''5  - d - t - a - x  - y''))) = ''x  - y'' \<and>
   parse_book_line ''5  - d - t - a - x  - y'' =
     ([], Some \<lparr> rating = ''5'', date_read = ''d'', title = ''t'',
                  author = ''a'', description = ''x - y'' \<rparr>)"
  by code_simp

lemma description_trimmed:
  assumes "xs \<noteq> []" "hd xs \<noteq> []" "last xs \<noteq> []" "no_outer_space (hd xs)" "no_outer_space (last xs)"
  shows "no_outer_space (join delim xs)"
proof -
  obtain x r where xs: "xs = x # r" using assms(1) by (cases xs) auto
  have "hd (join delim xs) = hd (hd xs)" using assms(2) by (simp add: xs hd_join)
  moreover have "last (join delim xs) = last (last xs)" using assms(1,3) by (rule last_join)
  ultimately show ?thesis using assms(2-5) by (simp add: no_outer_space_def)
qed

text \<open>
  C10 (as amended). In every record that a line parses to, rating, date, title and
  author have no leading and no trailing whitespace, since every segment is stripped
  on its own. The description is the join of the stripped segments from 4 on; it has
  no leading and no trailing whitespace when segment 4 and the last segment are not
  blank.
\<close>

theorem parsed_fields_trimmed:
  assumes "parse_book_line line = (printed, Some b)"
  shows "no_outer_space (rating b) \<and> no_outer_space (date_read b) \<and>
         no_outer_space (title b) \<and> no_outer_space (author b) \<and>
         description b = join delim (map strip (drop 4 (split_delim (strip line)))) \<and>
         (strip (split_delim (strip line) ! 4) \<noteq> [] \<and> strip (last (split_delim (strip line))) \<noteq> []
            \<longrightarrow> no_outer_space (description b))"
proof -
  let ?segs = "split_delim (strip line)"
  have len: "5 \<le> length ?segs" using assms by (rule parse_book_line_Some)
  from parse_book_line_parts [OF len] assms
  have b: "b = \<lparr> rating = strip (?segs ! 0), date_read = strip (?segs ! 1),
                 title = strip (?segs ! 2), author = strip (?segs ! 3),
                 description = join delim (map strip (drop 4 ?segs)) \<rparr>"
    by simp
  let ?d = "map strip (drop 4 ?segs)"
  have ne: "?d \<noteq> []" using len by simp
  have h: "hd ?d = strip (?segs ! 4)" using len by (simp add: hd_map hd_drop_conv_nth)
  have l: "last ?d = strip (last ?segs)" using len by (simp add: last_map)
  have "no_outer_space (join delim ?d)"
    if "strip (?segs ! 4) \<noteq> []" "strip (last ?segs) \<noteq> []"
    using ne that by (intro description_trimmed) (simp_all only: h l no_outer_space_strip not_False_eq_True)
  then show ?thesis by (simp add: b no_outer_space_strip)
qed

theorem parsed_fields_trimmed_witness:
  "parse_book_line ''  5 stars -  2024-01-01 - Title  - Author - Part one  -  Part two  '' =
     ([], Some \<lparr> rating = ''5 stars'', date_read = ''2024-01-01'', title = ''Title'',
                  author = ''Author'', description = ''Part one - Part two'' \<rparr>) \<and>
   no_outer_space ''5 stars'' \<and> no_outer_space ''2024-01-01'' \<and> no_outer_space ''Title'' \<and>
   no_outer_space ''Author'' \<and> no_outer_space ''Part one - Part two''"
proof -
  let ?L = "''  5 stars -  2024-01-01 - Title  - Author - Part one  -  Part two  ''"
  let ?b = "\<lparr> rating = ''5 stars'', date_read = ''2024-01-01'', title = ''Title'',
                  author = ''Author'', description = ''Part one - Part two'' \<rparr>"
  have p: "parse_book_line ?L = ([], Some ?b)" by code_simp
  have s4: "strip (split_delim (strip ?L) ! 4) \<noteq> []" by code_simp
  have s5: "strip (last (split_delim (strip ?L))) \<noteq> []" by code_simp
  from parsed_fields_trimmed [OF p] s4 s5
  have "no_outer_space (rating ?b) \<and> no_outer_space (date_read ?b) \<and>
        no_outer_space (title ?b) \<and> no_outer_space (author ?b) \<and>
        no_outer_space (description ?b)"
    by blast
  then show ?thesis using p by simp
qed

text \<open>
  C10 fails as it is stated: when segment 4 is blank and more segments follow, the
  description begins with the delimiter, and so with a space.
\<close>

theorem description_space_counterexample:
  "parse_book_line ''r - d - t - a -  - x'' =
     ([], Some \<lparr> rating = ''r'', date_read = ''d'', title = ''t'', author = ''a'',
                  description = '' - x'' \<rparr>) \<and>
   \<not> no_outer_space '' - x''"
  by code_simp

section \<open>Parsing the book file\<close>

lemma parse_books_blank_or_comment:
  assumes "strip line = [] \<or> startswith (strip line) ''#''"
  shows "parse_books n (line # rest) = parse_books (Suc n) rest"
  using assms by (auto simp: Let_def split: prod.splits)

lemma parse_books_malformed:
  assumes "strip line \<noteq> []" "\<not> startswith (strip line) ''#''"
    "length (split_delim (strip line)) < 5"
  shows "parse_books n (line # rest) =
        ([''Warning: Invalid format in line: '' @ strip line,
          ''Expected format: rating - date - title - author - description'']
         @ fst (parse_books (Suc n) rest),
         snd (parse_books (Suc n) rest))"
proof -
  from assms have "parse_book_line line =
      ([''Warning: Invalid format in line: '' @ strip line,
        ''Expected format: rating - date - title - author - description''], None)"
    by (simp add: parse_book_line_def Let_def)
  with assms show ?thesis by (simp add: Let_def split: prod.splits)
qed

text \<open>
  C4. A book file of two lines, the second with a single segment: the loop prints the
  warning for the second line, keeps the record of the first and goes on, as the
  specification asks; but the warning names the line only. The loop counts the lines
  from 1 (\<open>enumerate(lines, 1)\<close>) and never passes the number on, so the number 2
  is nowhere in what is printed. The specification asks for the 1-based line number
  in the diagnostic.
\<close>

theorem malformed_line_diagnostic:
  "parse_books 1 [''5 stars - 2024-01-01 - Title - Author - A book\<newline>'', ''oops\<newline>''] =
     ([''Warning: Invalid format in line: oops'',
       ''Expected format: rating - date - title - author - description''],
      [\<lparr> rating = ''5 stars'', date_read = ''2024-01-01'', title = ''Title'',
         author = ''Author'', description = ''A book'' \<rparr>]) \<and>
   \<not> sublist (show_nat 2)
       (concat (fst (parse_books 1
          [''5 stars - 2024-01-01 - Title - Author - A book\<newline>'', ''oops\<newline>''])))"
  by code_simp

section \<open>Rendering the records\<close>

lemma replace_char_Nil [simp]: "replace_char old new [] = []"
  by (simp add: replace_char_def)

lemma replace_char_Cons:
  "replace_char old new (c # cs) = (if c = old then new else [c]) @ replace_char old new cs"
  by (simp add: replace_char_def)

lemma replace_char_append:
  "replace_char old new (a @ b) = replace_char old new a @ replace_char old new b"
  by (simp add: replace_char_def)

lemma html_escape_Nil [simp]: "html_escape [] = []"
  by (simp add: html_escape_def)

lemma html_escape_Cons: "html_escape (c # cs) = esc_char c @ html_escape cs"
  by (simp add: html_escape_def esc_char_def replace_char_Cons replace_char_append)

lemma html_escape_append: "html_escape (a @ b) = html_escape a @ html_escape b"
  by (induction a) (simp_all add: html_escape_Cons)

lemma lt_notin_esc_char: "CHR ''<'' \<notin> set (esc_char c)"
  by (simp add: esc_char_def)

lemma lt_notin_html_escape: "CHR ''<'' \<notin> set (html_escape s)"
  by (induction s) (simp_all add: html_escape_Cons lt_notin_esc_char)

lemma strip_tags_text: "CHR ''<'' \<notin> set u \<Longrightarrow> strip_tags False (u @ t) = u @ strip_tags False t"
  by (induction u) auto

lemma strip_tags_escape: "strip_tags False (html_escape s @ t) = html_escape s @ strip_tags False t"
  by (rule strip_tags_text) (rule lt_notin_html_escape)

lemma html_unescape_esc_char: "html_unescape (esc_char c @ t) = c # html_unescape t"
  by (simp add: esc_char_def startswith_def)

lemma html_unescape_escape: "html_unescape (html_escape s @ t) = s @ html_unescape t"
  by (induction s) (simp_all add: html_escape_Cons html_unescape_esc_char)

lemma html_unescape_text: "CHR ''&'' \<notin> set u \<Longrightarrow> html_unescape (u @ t) = u @ html_unescape t"
  by (induction u) (auto simp: startswith_def)


lemma text_summary_item:
  "html_unescape (strip_tags False (summary_item b @ t)) =
     summary_text b @ html_unescape (strip_tags False t)"
proof -
  have "strip_tags False (summary_item b @ t) =
      ''                '' @ html_escape (rating b) @ '' '' @ em_dash @ '' ''
      @ html_escape (date_read b) @ '' '' @ em_dash @ '' '' @ html_escape (title b) @ '' by ''
      @ html_escape (author b) @ strip_tags False t"
    by (simp add: summary_item_def format_date_book_def Let_def em_dash_def strip_tags_escape)
  then show ?thesis
    by (simp add: summary_text_def em_dash_def html_unescape_escape startswith_def)
qed

lemma text_detail_item:
  "html_unescape (strip_tags False (detail_item b @ t)) =
     detail_text b @ html_unescape (strip_tags False t)"
proof -
  have "strip_tags False (detail_item b @ t) =
      ''                \<newline>                    '' @ html_escape (title b) @ '' by ''
      @ html_escape (author b) @ ''\<newline>                    '' @ html_escape (description b)
      @ ''\<newline>                '' @ strip_tags False t"
    by (simp add: detail_item_def Let_def strip_tags_escape)
  then show ?thesis
    by (simp add: detail_text_def html_unescape_escape startswith_def)
qed

lemma text_join_items:
  assumes "\<And>b t. html_unescape (strip_tags False (item b @ t)) = txt b @ html_unescape (strip_tags False t)"
  shows "html_unescape (strip_tags False (join ''\<newline>'' (map item books) @ t)) =
         join ''\<newline>'' (map txt books) @ html_unescape (strip_tags False t)"
proof (induction books rule: induct_list012)
  case 1
  show ?case by simp
next
  case (2 b)
  show ?case by (simp add: assms)
next
  case (3 b c books)
  have "html_unescape (strip_tags False (CHR ''\<newline>'' # u)) = CHR ''\<newline>'' # html_unescape (strip_tags False u)" for u
    by (simp add: startswith_def)
  with 3 show ?case by (simp add: assms)
qed

lemma join_lines_of: "join ''\<newline>'' xs = lines_of xs"
  by (induction xs rule: induct_list012) simp_all

lemma html_escape_one_pass: "html_escape s = concat (map esc_char s)"
  by (induction s) (simp_all add: html_escape_Cons)

lemma markup_esc_char: "filter is_markup (esc_char c) = []"
  by (simp add: esc_char_def is_markup_def)

lemma markup_html_escape: "filter is_markup (html_escape s) = []"
  by (induction s) (simp_all add: html_escape_Cons markup_esc_char)

lemma markup_summary_item: "filter is_markup (summary_item b) = ''<><><><>''"
  by (simp add: summary_item_def Let_def format_date_book_def em_dash_def markup_html_escape
      is_markup_def)

lemma markup_detail_item:
  "filter is_markup (detail_item b) =
     ''<><'' @ [CHR 0x22, CHR 0x22] @ ''><><><><'' @ [CHR 0x22, CHR 0x22] @ ''><><>''"
  by (simp add: detail_item_def Let_def markup_html_escape is_markup_def)

lemma markup_lines_of:
  "filter is_markup (lines_of xs) = concat (map (filter is_markup) xs)"
proof (cases xs)
  case Nil
  then show ?thesis by simp
next
  case (Cons x r)
  have "filter is_markup (concat (map (\<lambda>y. CHR ''\<newline>'' # y) r)) = concat (map (filter is_markup) r)"
    by (induction r) (simp_all add: is_markup_def)
  then show ?thesis by (simp add: Cons)
qed


lemma text_lines_of:
  "html_unescape (strip_tags False (lines_of (map item books))) = lines_of (map txt books)"
  if "\<And>b t. html_unescape (strip_tags False (item b @ t)) = txt b @ html_unescape (strip_tags False t)"
proof -
  have "html_unescape (strip_tags False (join ''\<newline>'' (map item books) @ [])) =
        join ''\<newline>'' (map txt books) @ html_unescape (strip_tags False [])"
    using that by (rule text_join_items)
  then show ?thesis by (simp add: join_lines_of)
qed

text \<open>
  C1. Every field of every record goes into the fragments escaped, and escaped once.
  The summary fragment is, line by line, the fixed markup around rating, date, title
  and author, and the details fragment the fixed markup around title, author and
  description, each field with a character reference written for every ampersand,
  angle bracket and quote in one pass. Whatever the fields hold, the angle brackets
  and quotes of a fragment are those of the markup, the same for every record. And
  reading a fragment back (the tags taken out, the character references read) gives
  the fields as they were.
\<close>

theorem generate_book_html_escaped:
  "fst (generate_book_html books) = lines_of (map summary_line books) \<and>
   snd (generate_book_html books) = lines_of (map detail_entry books) \<and>
   filter is_markup (fst (generate_book_html books)) = concat (map (\<lambda>b. summary_markup) books) \<and>
   filter is_markup (snd (generate_book_html books)) = concat (map (\<lambda>b. detail_markup) books) \<and>
   text_content (fst (generate_book_html books)) = lines_of (map summary_text books) \<and>
   text_content (snd (generate_book_html books)) = lines_of (map detail_text books)"
proof -
  have f: "fst (generate_book_html books) = lines_of (map summary_item books)"
    and s: "snd (generate_book_html books) = lines_of (map detail_item books)"
    by (simp_all add: generate_book_html_def join_lines_of)
  have si: "summary_item = summary_line"
    by (rule ext)
       (simp add: summary_item_def summary_line_def Let_def format_date_book_def escaped_def
          html_escape_one_pass)
  have di: "detail_item = detail_entry"
    by (rule ext)
       (simp add: detail_item_def detail_entry_def Let_def escaped_def html_escape_one_pass)
  have m1: "filter is_markup (lines_of (map summary_item books)) =
            concat (map (\<lambda>b. summary_markup) books)"
    by (simp add: markup_lines_of comp_def markup_summary_item summary_markup_def)
  have m2: "filter is_markup (lines_of (map detail_item books)) =
            concat (map (\<lambda>b. detail_markup) books)"
    by (simp add: markup_lines_of comp_def markup_detail_item detail_markup_def)
  have t1: "text_content (lines_of (map summary_item books)) = lines_of (map summary_text books)"
    unfolding text_content_def by (rule text_lines_of) (rule text_summary_item)
  have t2: "text_content (lines_of (map detail_item books)) = lines_of (map detail_text books)"
    unfolding text_content_def by (rule text_lines_of) (rule text_detail_item)
  show ?thesis
    unfolding f s using m1 m2 t1 t2 by (simp add: si di)
qed

section \<open>Slugs\<close>

lemma sub_each_delete: "sub_each (\<lambda>c. \<not> keep c) [] s = filter keep s"
  by (induction s) (simp_all add: sub_each_def)

lemma collapse_runs_skip:
  "collapse_runs True s = collapse_runs False (dropWhile (\<lambda>c. c = CHR ''-'' \<or> is_space c) s)"
  by (induction s) auto

lemma sub_runs_collapse:
  "sub_runs (\<lambda>c. c = CHR ''-'' \<or> is_space c) ''-'' s = collapse_runs False s"
proof (induction "\<lambda>c. c = CHR ''-'' \<or> is_space c" "''-''" s rule: sub_runs.induct)
  case 1
  show ?case by simp
next
  case (2 c cs)
  then show ?case by (auto simp: collapse_runs_skip)
qed

lemma slugify_slug_spec: "slugify t = slug_spec t"
proof -
  have "sub_each (\<lambda>c. \<not> (is_word c \<or> is_space c \<or> c = CHR ''-'')) [] (lower t) =
        filter (\<lambda>c. is_word c \<or> is_space c \<or> c = CHR ''-'') (map to_lower t)"
    by (simp only: sub_each_delete lower_def)
  then show ?thesis
    by (simp add: slugify_def slug_spec_def strip_chars_def Let_def sub_runs_collapse)
qed

lemma is_word_code_point:
  "is_word c \<longleftrightarrow>
     (48 \<le> (of_char c :: nat) \<and> (of_char c :: nat) \<le> 57) \<or>
     (65 \<le> (of_char c :: nat) \<and> (of_char c :: nat) \<le> 90) \<or> (of_char c :: nat) = 95 \<or>
     (97 \<le> (of_char c :: nat) \<and> (of_char c :: nat) \<le> 122) \<or>
     (of_char c :: nat) \<in> {170, 178, 179, 181, 185, 186, 188, 189, 190} \<or>
     (192 \<le> (of_char c :: nat) \<and> (of_char c :: nat) \<noteq> 215 \<and> (of_char c :: nat) \<noteq> 247)"
  unfolding is_word_def Let_def ..

lemma is_word_to_lower: "is_word (to_lower c) = is_word c"
proof -
  let ?n = "of_char c :: nat"
  consider (ascii) "65 \<le> ?n \<and> ?n \<le> 90"
    | (latin) "192 \<le> ?n \<and> ?n \<le> 222 \<and> ?n \<noteq> 215"
    | (other) "\<not> ((65 \<le> ?n \<and> ?n \<le> 90) \<or> (192 \<le> ?n \<and> ?n \<le> 222 \<and> ?n \<noteq> 215))"
    by blast
  then show ?thesis
  proof cases
    case ascii
    then have l: "to_lower c = char_of (?n + 32)" by (simp add: to_lower_def Let_def)
    have "?n + 32 < 256" using ascii by simp
    then have e: "of_char (char_of (?n + 32)) = ?n + 32" by simp
    have "97 \<le> ?n + 32 \<and> ?n + 32 \<le> 122" using ascii by simp
    then have "is_word (char_of (?n + 32))"
      unfolding is_word_code_point e by blast
    moreover have "is_word c" unfolding is_word_code_point using ascii by blast
    ultimately show ?thesis by (simp add: l)
  next
    case latin
    then have l: "to_lower c = char_of (?n + 32)" by (simp add: to_lower_def Let_def)
    have "?n + 32 < 256" using latin by simp
    then have e: "of_char (char_of (?n + 32)) = ?n + 32" by simp
    have "192 \<le> ?n + 32 \<and> ?n + 32 \<noteq> 215 \<and> ?n + 32 \<noteq> 247" using latin by simp
    then have "is_word (char_of (?n + 32))"
      unfolding is_word_code_point e by blast
    moreover have "192 \<le> ?n \<and> ?n \<noteq> 215 \<and> ?n \<noteq> 247" using latin by simp
    then have "is_word c" unfolding is_word_code_point by blast
    ultimately show ?thesis by (simp add: l)
  next
    case other
    then have "to_lower c = c" unfolding to_lower_def Let_def by (rule if_not_P)
    then show ?thesis by simp
  qed
qed

lemma collapse_runs_separators:
  assumes "\<forall>c\<in>set s. c = CHR ''-'' \<or> is_space c"
  shows "collapse_runs True s = [] \<and> collapse_runs False s = (if s = [] then [] else ''-'')"
  using assms by (induction s) auto

lemma slug_spec_no_word:
  assumes "\<forall>c\<in>set t. \<not> is_word c"
  shows "slug_spec t = []"
proof -
  let ?kept = "filter (\<lambda>c. is_word c \<or> is_space c \<or> c = CHR ''-'') (map to_lower t)"
  have "\<forall>c\<in>set ?kept. c = CHR ''-'' \<or> is_space c"
    using assms by (auto simp: is_word_to_lower)
  then have "collapse_runs False ?kept = (if ?kept = [] then [] else ''-'')"
    using collapse_runs_separators by blast
  then show ?thesis
    by (simp add: slug_spec_def Let_def)
qed

text \<open>
  C9 (as amended). The slug of a title is the composition that the specification
  words: lower-case, delete every character that is not a word character, whitespace
  or a hyphen, collapse each run of whitespace and hyphens into one hyphen, trim the
  hyphens at both ends. \<open>'My Post: Part 2!'\<close> has the slug \<open>'my-post-part-2'\<close>; the
  empty title, and every title without a word character, has the empty slug.
\<close>

theorem slugify_composition:
  "slugify t = slug_spec t \<and>
   slugify ''My Post: Part 2!'' = ''my-post-part-2'' \<and>
   slugify [] = [] \<and>
   ((\<forall>c\<in>set t. \<not> is_word c) \<longrightarrow> slugify t = [])"
proof -
  have "slug_spec ''My Post: Part 2!'' = ''my-post-part-2''" by code_simp
  moreover have "slug_spec [] = []" by (simp add: slug_spec_def)
  ultimately show ?thesis
    by (simp add: slugify_slug_spec slug_spec_no_word)
qed

theorem slugify_composition_witness:
  "slugify ''?! - ...'' = []"
proof -
  have h: "\<forall>c\<in>set ''?! - ...''. \<not> is_word c" by code_simp
  from slugify_composition [of "''?! - ...''"] h show ?thesis by blast
qed

text \<open>
  C9 fails as it is stated: the underscore is punctuation and a word character, and a
  title of underscores keeps them.
\<close>

theorem slugify_underscore_counterexample:
  "list_all is_punctuation ''_'' \<and> slugify ''_'' = ''_''"
  by code_simp

section \<open>Dates\<close>





















section \<open>Exit codes\<close>

text \<open>
  C5. The article converter ends with code 1 when it is run without a path, and with
  code 0 in every other case, whatever the conversion returned: run on a file that
  exists neither under its path nor in \<open>drafts\<close>, it prints the error and ends with
  code 0. The specification asks for code 1 there.
\<close>

theorem main_article_exit_code:
  "fst (main_article env argv) = (if length argv < 2 then 1 else 0) \<and>
   main_article
     \<lparr> css_styles = [], navigation = [], path_exists = (\<lambda>p. False),
       frontmatter_load = (\<lambda>p. Inl []), markdown_convert = (\<lambda>s. s),
       write_file_error = (\<lambda>p. None) \<rparr>
     [''md_to_html.py'', ''missing.md''] =
   (0, [''Error: File '' @ [CHR 0x27] @ ''missing.md'' @ [CHR 0x27] @ '' not found.''], [])"
  by (simp add: main_article_def Let_def convert_markdown_to_html_def is_absolute_def
      startswith_def split: prod.splits)

text \<open>
  C2. On a host document that neither pattern matches, with one well-formed record
  in the book file, the registry script writes the document back as it was, reports
  the update as done and ends with code 0. The specification asks for a failure and
  code 1 there.
\<close>

theorem main_registry_no_match:
  "search pattern ''<html><body><main><p>No list here</p></main></body></html>'' = None \<and>
   search pattern_simple ''<html><body><main><p>No list here</p></main></body></html>'' = None \<and>
   main_registry
     \<lparr> books_path = ''books.txt'',
       books_txt = Content [''5 stars - 2024-01-01 - Title - Author - A book''],
       registry_path = ''book-registry.html'',
       registry_html = Content ''<html><body><main><p>No list here</p></main></body></html>'',
       registry_write_error = None \<rparr> =
   (0,
    [''Found 1 book(s)'',
     check_mark @ '' Updated book-registry.html with 1 book(s)'',
     check_mark @ '' Book registry updated successfully!''],
    \<lparr> books_path = ''books.txt'',
       books_txt = Content [''5 stars - 2024-01-01 - Title - Author - A book''],
       registry_path = ''book-registry.html'',
       registry_html = Content ''<html><body><main><p>No list here</p></main></body></html>'',
       registry_write_error = None \<rparr>)"
  by code_simp

section \<open>The matcher and the substitution loop\<close>

lemma bt_space_Cons:
  "bt (SpaceStar # rs) (c # cs) st =
     (if is_space c
      then (case bt (SpaceStar # rs) cs st of Some r \<Rightarrow> Some r | None \<Rightarrow> bt rs (c # cs) st)
      else bt rs (c # cs) st)"
  by simp

lemma bt_space_Nil: "bt (SpaceStar # rs) [] st = bt rs [] st"
  by simp

lemma bt_lazy_Cons:
  "bt (AnyLazy # rs) (c # cs) st =
     (case bt rs (c # cs) st of Some r \<Rightarrow> Some r | None \<Rightarrow> bt (AnyLazy # rs) cs st)"
  by (simp split: option.splits)

lemma bt_lazy_Nil: "bt (AnyLazy # rs) [] st = bt rs [] st"
  by (simp split: option.splits)

lemmas bt_step = bt.simps(1,2,5,6,7) bt_space_Cons bt_space_Nil bt_lazy_Cons bt_lazy_Nil

lemma bt_sound: "bt p s st = Some (st', r) \<Longrightarrow> matches p s st st' r"
proof (induction p s st arbitrary: st' r rule: bt.induct)
  case (1 s st)
  then show ?case by simp
next
  case (2 l rs s st)
  then show ?case by (simp split: if_splits)
next
  case (3 rs s st)
  show ?case
  proof (cases "bt rs s st")
    case (Some a)
    with 3 have "matches rs (drop 0 s) st st' r" by simp
    then show ?thesis unfolding matches.simps by blast
  next
    case None
    with 3(3) obtain c cs where s: "s = c # cs" and b: "bt (AnyLazy # rs) cs st = Some (st', r)"
      by (cases s) auto
    from 3(2) [OF None s b] obtain n where "n \<le> length cs" "matches rs (drop n cs) st st' r"
      by auto
    then have "Suc n \<le> length s \<and> matches rs (drop (Suc n) s) st st' r" by (simp add: s)
    then show ?thesis unfolding matches.simps by blast
  qed
next
  case (4 rs s st)
  show ?case
  proof (cases s)
    case Nil
    with 4 have "matches rs (drop 0 s) st st' r" by simp
    then have "0 \<le> length s \<and> list_all is_space (take 0 s) \<and> matches rs (drop 0 s) st st' r" by simp
    then show ?thesis unfolding matches.simps by blast
  next
    case (Cons c cs)
    have zero: "matches (SpaceStar # rs) s st st' r" if "matches rs s st st' r"
    proof -
      from that
      have "0 \<le> length s \<and> list_all is_space (take 0 s) \<and> matches rs (drop 0 s) st st' r"
        by simp
      then show ?thesis unfolding matches.simps by blast
    qed
    show ?thesis
    proof (cases "is_space c")
      case True
      show ?thesis
      proof (cases "bt (SpaceStar # rs) cs st")
        case None
        from 4(5) have b: "bt rs s st = Some (st', r)"
          by (simp add: Cons bt_space_Cons True None del: bt.simps)
        from 4(3) [OF Cons True None b] show ?thesis by (rule zero)
      next
        case (Some a)
        from 4(5) have b: "bt (SpaceStar # rs) cs st = Some (st', r)"
          by (simp add: Cons bt_space_Cons True Some del: bt.simps)
        from 4(2) [OF Cons True b] obtain n where
          "n \<le> length cs" "list_all is_space (take n cs)" "matches rs (drop n cs) st st' r"
          by auto
        then have "Suc n \<le> length s \<and> list_all is_space (take (Suc n) s) \<and>
                   matches rs (drop (Suc n) s) st st' r"
          using True by (simp add: Cons)
        then show ?thesis unfolding matches.simps by blast
      qed
    next
      case False
      from 4(5) have b: "bt rs s st = Some (st', r)"
        by (simp add: Cons bt_space_Cons False del: bt.simps)
      from 4(4) [OF Cons False b] show ?thesis by (rule zero)
    qed
  qed
next
  case (5 body rs s st)
  then show ?case by (auto split: option.splits)
next
  case (6 k rs s st)
  then show ?case by simp
next
  case (7 k rs s st)
  then show ?case by simp
qed


lemma bt_complete: "matches p s st st' r \<Longrightarrow> bt p s st \<noteq> None"
proof (induction p s st arbitrary: st' r rule: bt.induct)
  case (1 s st)
  show ?case by simp
next
  case (2 l rs s st)
  then show ?case by auto
next
  case (3 rs s st)
  from 3(3) obtain n where n: "n \<le> length s" "matches rs (drop n s) st st' r" by auto
  show ?case
  proof (cases "bt rs s st")
    case (Some a)
    then show ?thesis by simp
  next
    case None
    have "n \<noteq> 0"
    proof
      assume "n = 0"
      with n have "matches rs s st st' r" by simp
      from 3(1) [OF this] None show False by simp
    qed
    then obtain m where m: "n = Suc m" by (cases n) auto
    with n(1) obtain c cs where s: "s = c # cs" by (cases s) auto
    from n m s have "m \<le> length cs \<and> matches rs (drop m cs) st st' r" by simp
    then have "matches (AnyLazy # rs) cs st st' r" unfolding matches.simps by blast
    from 3(2) [OF None s this] None show ?thesis
      unfolding s by (simp add: bt_lazy_Cons del: bt.simps)
  qed
next
  case (4 rs s st)
  from 4(5) obtain n where n: "n \<le> length s" "list_all is_space (take n s)"
    "matches rs (drop n s) st st' r" by auto
  show ?case
  proof (cases s)
    case Nil
    with n have "matches rs [] st st' r" by simp
    from 4(1) [OF Nil this] show ?thesis by (simp add: Nil)
  next
    case (Cons c cs)
    show ?thesis
    proof (cases "is_space c")
      case True
      show ?thesis
      proof (cases "bt (SpaceStar # rs) cs st")
        case (Some a)
        then show ?thesis by (simp add: Cons bt_space_Cons True del: bt.simps)
      next
        case None
        have "n = 0"
        proof (rule ccontr)
          assume "n \<noteq> 0"
          then obtain m where m: "n = Suc m" by (cases n) auto
          from n m Cons have "m \<le> length cs \<and> list_all is_space (take m cs) \<and>
              matches rs (drop m cs) st st' r" by simp
          then have "matches (SpaceStar # rs) cs st st' r" unfolding matches.simps by blast
          from 4(2) [OF Cons True this] None show False by simp
        qed
        with n have "matches rs s st st' r" by simp
        from 4(3) [OF Cons True None this] show ?thesis
          by (simp add: Cons bt_space_Cons True None del: bt.simps)
      qed
    next
      case False
      have "n = 0"
      proof (rule ccontr)
        assume "n \<noteq> 0"
        then obtain m where m: "n = Suc m" by (cases n) auto
        from n(2) m Cons False show False by simp
      qed
      with n have "matches rs s st st' r" by simp
      from 4(4) [OF Cons False this] show ?thesis
        by (simp add: Cons bt_space_Cons False del: bt.simps)
    qed
  qed
next
  case (5 body rs s st)
  show ?case
  proof (cases "bt (body @ rs) s st")
    case (Some a)
    then show ?thesis by simp
  next
    case None
    from 5(3) have "matches (body @ rs) s st st' r \<or> matches rs s st st' r" by simp
    then have "matches rs s st st' r" using 5(1) None by auto
    from 5(2) [OF None this] show ?thesis by (simp add: None)
  qed
next
  case (6 k rs s st)
  then show ?case by simp
next
  case (7 k rs s st)
  then show ?case by simp
qed

lemma matches_suffix: "matches p s st st' r \<Longrightarrow> suffix r s"
proof (induction p s st st' r rule: matches.induct)
  case (2 l rs s st st' r)
  then have "suffix r (drop (length l) s)" by simp
  then show ?case using suffix_drop suffix_order.trans by blast
next
  case (3 rs s st st' r)
  then obtain n where "suffix r (drop n s)" by auto
  then show ?case using suffix_drop suffix_order.trans by blast
next
  case (4 rs s st st' r)
  then obtain n where "suffix r (drop n s)" by auto
  then show ?case using suffix_drop suffix_order.trans by blast
qed auto

lemma matches_append:
  "matches (p @ q) s st st' r \<longleftrightarrow> (\<exists>s1 st1. matches p s st st1 s1 \<and> matches q s1 st1 st' r)"
proof (induction p s st st' r rule: matches.induct)
  case (5 body rs s st st' r)
  then show ?case by (simp del: append_assoc add: append_assoc [symmetric]) blast
qed (auto)


lemma search_SomeD:
  assumes "search p s = Some (i, st, r)"
  shows "i \<le> length s \<and> bt p (drop i s) init = Some (st, r) \<and>
         (\<forall>j<i. bt p (drop j s) init = None)"
  using assms
proof (induction s arbitrary: i)
  case Nil
  then show ?case by (auto split: option.splits)
next
  case (Cons c cs)
  show ?case
  proof (cases "bt p (c # cs) init")
    case (Some a)
    with Cons.prems show ?thesis by (auto split: prod.splits)
  next
    case None
    with Cons.prems obtain k where k: "search p cs = Some (k, st, r)" "i = Suc k"
      by (auto split: option.splits)
    from Cons.IH [OF k(1)] have ih: "k \<le> length cs" "bt p (drop k cs) init = Some (st, r)"
      "\<forall>j<k. bt p (drop j cs) init = None" by auto
    have "bt p (drop j (c # cs)) init = None" if "j < i" for j
      using that None ih(3) k(2) by (cases j) auto
    then show ?thesis using ih k(2) by simp
  qed
qed

lemma search_NoneD: "search p s = None \<Longrightarrow> bt p (drop j s) init = None"
proof (induction s arbitrary: j)
  case Nil
  then show ?case by (auto split: option.splits)
next
  case (Cons c cs)
  then have "bt p (c # cs) init = None" "search p cs = None"
    by (auto split: option.splits)
  with Cons.IH show ?case by (cases j) auto
qed

lemma sub_scan_skip: "n \<le> length s \<Longrightarrow> sub_scan t p n s = sub_scan t p 0 (drop n s)"
proof (induction s arbitrary: n)
  case Nil
  then show ?case by simp
next
  case (Cons c cs)
  then show ?case by (cases n) (simp_all del: sub_scan.simps(3,4))
qed

lemma sub_scan_no_match: "search p s = None \<Longrightarrow> sub_scan t p 0 s = s"
proof (induction s)
  case Nil
  then show ?case by (auto split: option.splits)
next
  case (Cons c cs)
  then have "bt p (c # cs) init = None" "search p cs = None"
    by (auto split: option.splits)
  with Cons.IH show ?case by simp
qed

lemma sub_scan_match:
  assumes "bt p s init = Some (st, r)" "length r < length s" "suffix r s"
  shows "sub_scan t p 0 s = expand_template t st @ sub_scan t p 0 r"
proof -
  from assms(2) obtain c cs where s: "s = c # cs" by (cases s) auto
  from assms(2) have le: "length r \<le> length cs" by (simp add: s)
  from assms(3) obtain w where w: "s = w @ r" by (auto simp: suffix_def)
  with assms(2) obtain w' where w': "w = c # w'" using s by (cases w) auto
  with w s have cs: "cs = w' @ r" by simp
  then have "drop (length cs - length r) cs = r" by simp
  moreover have "sub_scan t p (length cs - length r) cs =
      sub_scan t p 0 (drop (length cs - length r) cs)"
    by (rule sub_scan_skip) simp
  ultimately show ?thesis using assms(1) le by (simp add: s)
qed

lemma sub_scan_before:
  assumes "\<forall>j<i. bt p (drop j s) init = None" "i \<le> length s"
  shows "sub_scan t p 0 s = take i s @ sub_scan t p 0 (drop i s)"
  using assms
proof (induction i arbitrary: s)
  case 0
  show ?case by simp
next
  case (Suc i)
  then obtain c cs where s: "s = c # cs" by (cases s) auto
  from Suc.prems(1) have "bt p (drop 0 s) init = None" by blast
  then have n: "bt p (c # cs) init = None" by (simp add: s)
  have "\<forall>j<i. bt p (drop j cs) init = None"
  proof (intro allI impI)
    fix j assume "j < i"
    then have "Suc j < Suc i" by simp
    with Suc.prems(1) have "bt p (drop (Suc j) s) init = None" by blast
    then show "bt p (drop j cs) init = None" by (simp add: s)
  qed
  moreover have "i \<le> length cs" using Suc.prems(2) by (simp add: s)
  ultimately have "sub_scan t p 0 cs = take i cs @ sub_scan t p 0 (drop i cs)"
    by (rule Suc.IH)
  then show ?case using n by (simp add: s)
qed

lemma matches_literal_shorter:
  assumes "matches (Open k # Lit l # rs) s st st' r" "l \<noteq> []"
  shows "length r < length s"
proof -
  from assms(1) have a: "startswith s l"
    and b: "matches rs (drop (length l) s) (st\<lparr>opened := (opened st)(k \<mapsto> s)\<rparr>) st' r"
    by simp_all
  from a have "length l \<le> length s"
    by (metis startswith_def length_take min.cobounded1)
  moreover from b have "suffix r (drop (length l) s)" by (rule matches_suffix)
  then have "length r \<le> length s - length l" by (auto dest: suffix_length_le)
  ultimately show ?thesis using assms(2) by (cases l) auto
qed

lemma matches_tail_group:
  assumes "matches (p @ [Open k, SpaceStar, Lit l, Close k]) s st st' r"
  shows "\<exists>old ws. s = old @ ws @ l @ r \<and> list_all is_space ws \<and> groups st' k = Some (ws @ l)"
proof -
  from assms obtain s1 st1 where a: "matches p s st st1 s1"
    and b: "matches [Open k, SpaceStar, Lit l, Close k] s1 st1 st' r"
    unfolding matches_append by blast
  from b obtain n where n: "n \<le> length s1" "list_all is_space (take n s1)"
    "startswith (drop n s1) l" "r = drop (length l) (drop n s1)"
    "st' = (st1\<lparr>opened := (opened st1)(k \<mapsto> s1)\<rparr>)\<lparr>groups := (groups st1)(k \<mapsto> take (length s1 - length r) s1)\<rparr>"
    by auto
  from n(3) have d: "drop n s1 = l @ r"
    unfolding startswith_def n(4) by (metis append_take_drop_id)
  have s1: "s1 = take n s1 @ l @ r" using d by (metis append_take_drop_id)
  have "length s1 - length r = n + length l"
    using arg_cong [OF s1, of length] n(1) by simp
  then have "take (length s1 - length r) s1 = take n s1 @ l"
    by (metis s1 append.assoc append_eq_conv_conj length_append length_take min.absorb2 n(1))
  then have g: "groups st' k = Some (take n s1 @ l)" by (simp add: n(5))
  from a have "suffix s1 s" by (rule matches_suffix)
  then obtain old where "s = old @ s1" by (auto simp: suffix_def)
  then have "s = old @ take n s1 @ l @ r" using s1 by simp
  with n(2) g show ?thesis by blast
qed

lemma length_takeWhile_less: "\<exists>y\<in>set xs. \<not> P y \<Longrightarrow> length (takeWhile P xs) < length xs"
  by (induction xs) auto

lemma takeWhile_gt_append:
  assumes "CHR ''>'' \<in> set r"
  shows "takeWhile (\<lambda>x. x \<noteq> CHR ''>'') (r @ x) = takeWhile (\<lambda>x. x \<noteq> CHR ''>'') r \<and>
         length (takeWhile (\<lambda>x. x \<noteq> CHR ''>'') r) < length r"
proof -
  have "\<exists>y\<in>set r. \<not> y \<noteq> CHR ''>''" using assms by blast
  then have "length (takeWhile (\<lambda>x. x \<noteq> CHR ''>'') r) < length r"
    by (rule length_takeWhile_less)
  moreover have "takeWhile (\<lambda>x. x \<noteq> CHR ''>'') (r @ x) = takeWhile (\<lambda>x. x \<noteq> CHR ''>'') r"
    using assms by (simp add: takeWhile_append1)
  ultimately show ?thesis by simp
qed

lemma template_escape_plain:
  assumes "c \<noteq> CHR ''g''" "c \<noteq> CHR ''0''" "\<not> is_digit c"
  shows "template_escape n (c # y) =
    (case escapes c of
       Some e \<Rightarrow> Inr ([TChar e], 1)
     | None \<Rightarrow> if is_ascii_letter c then Inl BadEscape else Inr ([TChar (CHR 0x5C), TChar c], 1))"
  using assms by (simp add: template_escape_def)

lemma template_escape_plain_used:
  assumes "c \<noteq> CHR ''g''" "c \<noteq> CHR ''0''" "\<not> is_digit c"
    "template_escape n (c # y) = Inr (items, used)"
  shows "used = 1"
  using assms(4) unfolding template_escape_plain [OF assms(1-3)]
  by (cases "escapes c") (simp_all split: if_splits)

lemma addgroup_used: "addgroup n i u = Inr (items, used) \<Longrightarrow> used = u"
  by (simp add: addgroup_def split: if_splits)

lemma template_escape_name:
  assumes "CHR ''>'' \<in> set r'"
  shows "template_escape n (CHR ''g'' # CHR ''<'' # r' @ x) =
    (let name = takeWhile (\<lambda>x. x \<noteq> CHR ''>'') r' in
       if name = [] then Inl MissingGroupName
       else if list_all is_digit name then addgroup n (dec_val name) (length name + 3)
       else Inl BadGroupName)"
proof -
  from takeWhile_gt_append [OF assms]
  have tw: "takeWhile (\<lambda>x. x \<noteq> CHR ''>'') (r' @ x) = takeWhile (\<lambda>x. x \<noteq> CHR ''>'') r'"
    "length (takeWhile (\<lambda>x. x \<noteq> CHR ''>'') r') < length r'"
    by blast+
  from tw(2) have "length (takeWhile (\<lambda>x. x \<noteq> CHR ''>'') r') \<noteq> length r' + length x" by simp
  then show ?thesis
    by (simp add: template_escape_def Let_def tw(1))
qed

lemma template_escape_name_used:
  assumes "CHR ''>'' \<in> set r'"
    "template_escape n (CHR ''g'' # CHR ''<'' # r') = Inr (items, used)"
  shows "used \<le> length r' + 2"
proof -
  let ?name = "takeWhile (\<lambda>x. x \<noteq> CHR ''>'') r'"
  from takeWhile_gt_append [OF assms(1)] have l: "length ?name < length r'" by blast
  from template_escape_name [OF assms(1), of n "[]"] assms(2)
  have "addgroup n (dec_val ?name) (length ?name + 3) = Inr (items, used)"
    by (simp add: Let_def split: if_splits)
  then have "used = length ?name + 3" by (rule addgroup_used)
  with l show ?thesis by simp
qed

lemma template_escape_zero:
  "template_escape n (CHR ''0'' # r) =
     Inr ([TChar (char_of (oct_val (takeWhile is_octdigit (take 2 r)) mod 256))],
          Suc (length (takeWhile is_octdigit (take 2 r))))"
  by (simp add: template_escape_def Let_def)

lemma template_escape_digits:
  assumes "c \<noteq> CHR ''g''" "c \<noteq> CHR ''0''" "is_digit c"
  shows "template_escape n (c # d # r') =
     (if is_digit d then
        (if is_octdigit c \<and> is_octdigit d \<and> r' \<noteq> [] \<and> is_octdigit (hd r') then
           (if oct_val [c, d, hd r'] > 255 then Inl OctalOutOfRange
            else Inr ([TChar (char_of (oct_val [c, d, hd r']))], 3))
         else addgroup n (dec_val [c, d]) 2)
      else addgroup n (dec_val [c]) 1)"
  using assms by (simp add: template_escape_def)

lemma template_escape_append:
  assumes "cs \<noteq> []" "last cs = CHR ''>''"
  shows "template_escape n (cs @ x) = template_escape n cs \<and>
         (\<forall>items used. template_escape n cs = Inr (items, used) \<longrightarrow> used \<le> length cs)"
proof -
  from assms(1) obtain c r where cs: "cs = c # r" by (cases cs) auto
  consider (g) "c = CHR ''g''" | (zero) "c = CHR ''0''" | (digit) "c \<noteq> CHR ''g''" "c \<noteq> CHR ''0''" "is_digit c"
    | (other) "c \<noteq> CHR ''g''" "c \<noteq> CHR ''0''" "\<not> is_digit c"
    by blast
  then show ?thesis
  proof cases
    case g
    show ?thesis
    proof (cases r)
      case Nil
      with assms(2) cs g show ?thesis by simp
    next
      case (Cons b r')
      show ?thesis
      proof (cases "b = CHR ''<''")
        case False
        then show ?thesis by (simp add: cs g Cons template_escape_def)
      next
        case True
        with assms(2) cs Cons have r': "r' \<noteq> []" "last r' = CHR ''>''" by (auto split: if_splits)
        then have m: "CHR ''>'' \<in> set r'" using last_in_set by metis
        have "template_escape n (cs @ x) = template_escape n cs"
          using template_escape_name [OF m, of n x] template_escape_name [OF m, of n "[]"]
          by (simp add: cs g Cons True)
        moreover have "used \<le> length cs" if "template_escape n cs = Inr (items, used)" for items used
          using template_escape_name_used [OF m, of n items used] that
          by (simp add: cs g Cons True)
        ultimately show ?thesis by blast
      qed
    qed
  next
    case zero
    from assms(2) cs zero have r: "r \<noteq> []" "last r = CHR ''>''" by (auto split: if_splits)
    have oct: "\<not> is_octdigit (CHR ''>'')" by (simp add: is_octdigit_def)
    have e: "takeWhile is_octdigit (take 2 (r @ x)) = takeWhile is_octdigit (take 2 r)"
    proof (cases "2 \<le> length r")
      case True
      then show ?thesis by simp
    next
      case False
      with r have "r = [CHR ''>'']" by (cases r) (auto split: if_splits simp: Suc_le_eq)
      then show ?thesis using oct by (cases x) simp_all
    qed
    have "length (takeWhile is_octdigit (take 2 r)) \<le> length (take 2 r)"
      by (rule length_takeWhile_le)
    also have "\<dots> \<le> length r" by simp
    finally have "length (takeWhile is_octdigit (take 2 r)) \<le> length r" .
    moreover have "length (takeWhile is_octdigit (take 2 r)) \<noteq> length r" if "length r \<le> 2"
    proof -
      from that have "take 2 r = r" by simp
      moreover have "\<not> is_octdigit (last r)" using r oct by simp
      then have "\<exists>y\<in>set r. \<not> is_octdigit y" using r(1) last_in_set by blast
      then have "length (takeWhile is_octdigit r) < length r" by (rule length_takeWhile_less)
      ultimately show ?thesis by simp
    qed
    ultimately have "Suc (length (takeWhile is_octdigit (take 2 r))) \<le> length cs"
      unfolding cs by (cases "length r \<le> 2") (auto simp: min_def)
    then show ?thesis unfolding cs zero append_Cons template_escape_zero e by simp
  next
    case digit
    have dg: "\<not> is_digit (CHR ''>'')" by (simp add: is_digit_def)
    from assms(2) cs digit dg have r: "r \<noteq> []" "last r = CHR ''>''" by (auto split: if_splits)
    then obtain d r' where rr: "r = d # r'" by (cases r) auto
    have u: "used \<le> 3"
      if "template_escape n (c # d # r') = Inr (items, used)" for items used
      using that unfolding template_escape_digits [OF digit]
      by (auto split: if_splits dest: addgroup_used)
    show ?thesis
    proof (cases "is_digit d")
      case False
      have "template_escape n (cs @ x) = template_escape n cs"
        unfolding cs rr append_Cons template_escape_digits [OF digit] using False by simp
      moreover have "used \<le> length cs" if "template_escape n cs = Inr (items, used)" for items used
      proof -
        from that have "addgroup n (dec_val [c]) 1 = Inr (items, used)"
          unfolding cs rr template_escape_digits [OF digit] using False by simp
        then have "used = 1" by (rule addgroup_used)
        then show ?thesis by (simp add: cs)
      qed
      ultimately show ?thesis by blast
    next
      case True
      with r rr dg have r': "r' \<noteq> []" by (auto split: if_splits)
      then have h: "hd (r' @ x) = hd r'" "r' @ x \<noteq> []" by simp_all
      have "template_escape n (cs @ x) = template_escape n cs"
        unfolding cs rr append_Cons template_escape_digits [OF digit] h using r' by simp
      moreover have "used \<le> length cs" if "template_escape n cs = Inr (items, used)" for items used
      proof -
        from that have "used \<le> 3" unfolding cs rr by (rule u)
        moreover have "3 \<le> length cs" using r' by (cases r') (simp_all add: cs rr)
        ultimately show ?thesis by simp
      qed
      ultimately show ?thesis by blast
    qed
  next
    case other
    have "template_escape n (cs @ x) = template_escape n cs"
      unfolding cs append_Cons template_escape_plain [OF other] ..
    moreover have "used \<le> length cs" if "template_escape n cs = Inr (items, used)" for items used
    proof -
      from that have "used = 1" unfolding cs by (rule template_escape_plain_used [OF other])
      then show ?thesis by (simp add: cs)
    qed
    ultimately show ?thesis by blast
  qed
qed


lemma parse_template_group_end:
  assumes esc: "template_escape n [d] = Inr ([TGroup k], 1)"
    and body: "body = [] \<or> last body = CHR ''>''"
  shows "parse_template n (body @ [CHR 0x5C, d]) =
         (case parse_template n body of Inl e \<Rightarrow> Inl e | Inr t \<Rightarrow> Inr (t @ [TGroup k]))"
  using body
proof (induction body rule: length_induct)
  case (1 body)
  show ?case
  proof (cases body)
    case Nil
    then show ?thesis by (simp add: esc)
  next
    case (Cons c cs)
    with 1(2) have cs: "cs = [] \<or> last cs = CHR ''>''" by (auto split: if_splits)
    show ?thesis
    proof (cases "c = CHR 0x5C")
      case False
      have lt: "length cs < length body" by (simp add: Cons)
      have "parse_template n (cs @ [CHR 0x5C, d]) =
         (case parse_template n cs of Inl e \<Rightarrow> Inl e | Inr t \<Rightarrow> Inr (t @ [TGroup k]))"
        by (rule 1(1) [rule_format, OF lt cs])
      then show ?thesis using False by (simp add: Cons split: sum.splits)
    next
      case True
      with 1(2) Cons have ne: "cs \<noteq> []" and la: "last cs = CHR ''>''"
        by (auto split: if_splits)
      from template_escape_append [OF ne la, of n "[CHR 0x5C, d]"]
      have e: "template_escape n (cs @ [CHR 0x5C, d]) = template_escape n cs"
        and u: "\<And>items used. template_escape n cs = Inr (items, used) \<Longrightarrow> used \<le> length cs"
        by blast+
      show ?thesis
      proof (cases "template_escape n cs")
        case (Inl err)
        then show ?thesis by (simp add: Cons True e)
      next
        case (Inr a)
        obtain items used where a: "a = (items, used)" by (cases a)
        from u Inr a have le: "used \<le> length cs" by simp
        have d: "drop used cs = [] \<or> last (drop used cs) = CHR ''>''"
          using la by (cases "used < length cs") simp_all
        have lt: "length (drop used cs) < length body" by (simp add: Cons)
        have "parse_template n (drop used cs @ [CHR 0x5C, d]) =
           (case parse_template n (drop used cs) of Inl e \<Rightarrow> Inl e
            | Inr t \<Rightarrow> Inr (t @ [TGroup k]))"
          by (rule 1(1) [rule_format, OF lt d])
        then show ?thesis using le
          by (simp add: Cons True e Inr a split: sum.splits)
      qed
    qed
  qed
qed

lemma expand_template_group_end:
  "expand_template (t @ [TGroup k]) st =
     expand_template t st @ (case groups st k of None \<Rightarrow> [] | Some g \<Rightarrow> g)"
  by (induction t st rule: expand_template.induct) simp_all

lemma sub_scan_frame:
  assumes p: "p = Open j # Lit l # front @ [Open k, SpaceStar, Lit ''</main>'', Close k]"
    and l: "l \<noteq> []"
  shows "frame p k doc (sub_scan (t @ [TGroup k]) p 0 doc)"
proof (induction doc rule: length_induct)
  case (1 doc)
  show ?case
  proof (cases "search p doc")
    case None
    then have "sub_scan (t @ [TGroup k]) p 0 doc = doc" by (rule sub_scan_no_match)
    with None show ?thesis by (simp add: frame.untouched)
  next
    case (Some a)
    obtain i st r where a: "a = (i, st, r)" by (cases a)
    from search_SomeD [OF Some [unfolded a]]
    have i: "i \<le> length doc" and b: "bt p (drop i doc) init = Some (st, r)"
      and before: "\<forall>j<i. bt p (drop j doc) init = None"
      by blast+
    from b have m: "matches p (drop i doc) init st r" by (rule bt_sound)
    then have "matches (Open j # Lit l # (front @ [Open k, SpaceStar, Lit ''</main>'', Close k]))
                 (drop i doc) init st r"
      by (simp add: p)
    then have short: "length r < length (drop i doc)" using l by (rule matches_literal_shorter)
    from m have suf: "suffix r (drop i doc)" by (rule matches_suffix)
    have "matches ((Open j # Lit l # front) @ [Open k, SpaceStar, Lit ''</main>'', Close k])
            (drop i doc) init st r"
      using m by (simp add: p)
    from matches_tail_group [OF this] obtain old ws where
      d: "drop i doc = old @ ws @ ''</main>'' @ r" and ws: "list_all is_space ws"
      and g: "groups st k = Some (ws @ ''</main>'')"
      by blast
    have "length r < length doc" using short by simp
    then have ih: "frame p k r (sub_scan (t @ [TGroup k]) p 0 r)"
      by (rule 1 [rule_format])
    have "sub_scan (t @ [TGroup k]) p 0 doc =
          take i doc @ sub_scan (t @ [TGroup k]) p 0 (drop i doc)"
      using before i by (rule sub_scan_before)
    also have "sub_scan (t @ [TGroup k]) p 0 (drop i doc) =
          expand_template (t @ [TGroup k]) st @ sub_scan (t @ [TGroup k]) p 0 r"
      using b short suf by (rule sub_scan_match)
    also have "expand_template (t @ [TGroup k]) st = expand_template t st @ ws @ ''</main>''"
      by (simp add: expand_template_group_end g)
    finally have "sub_scan (t @ [TGroup k]) p 0 doc =
        take i doc @ expand_template t st @ ws @ ''</main>'' @ sub_scan (t @ [TGroup k]) p 0 r"
      by simp
    moreover have "frame p k doc
        (take i doc @ expand_template t st @ ws @ ''</main>'' @ sub_scan (t @ [TGroup k]) p 0 r)"
      using Some [unfolded a] g ws d ih by (rule frame.replaced)
    ultimately show ?thesis by simp
  qed
qed


section \<open>Splicing: what stays as it was\<close>

lemma re_sub_frame:
  assumes "p = Open j # Lit l # front @ [Open k, SpaceStar, Lit ''</main>'', Close k]" "l \<noteq> []"
    and "template_escape n [d] = Inr ([TGroup k], 1)"
    and "body = [] \<or> last body = CHR ''>''"
    and "re_sub p n (body @ [CHR 0x5C, d]) doc = Inr out"
  shows "frame p k doc out"
proof -
  from assms(5) obtain t where t: "parse_template n (body @ [CHR 0x5C, d]) = Inr t"
    and out: "out = sub_scan t p 0 doc"
    by (auto simp: re_sub_def split: sum.splits)
  from t obtain t' where "t = t' @ [TGroup k]"
    unfolding parse_template_group_end [OF assms(3,4)] by (auto split: sum.splits)
  then show ?thesis unfolding out using sub_scan_frame [OF assms(1,2)] by simp
qed

lemma last_replacement_body: "last (replacement_body a b) = CHR ''>''"
  by (simp add: replacement_body_def)

text \<open>
  C7. Whenever the splice returns a document, the output is the input but for the
  regions that the pattern matched (the primary pattern, or the fallback when the
  primary changed nothing): the text before a matched region is unchanged, the
  region ends with the group of whitespace and \<open></main>\<close>, which is written back as
  it was, and the text after the region is unchanged up to the next match.
\<close>

theorem splice_frame:
  assumes "splice books doc = Inr out"
  shows "frame pattern 2 doc out \<or> frame pattern_simple 4 doc out"
proof -
  obtain a b where g: "generate_book_html books = (a, b)" by (cases "generate_book_html books")
  have body: "replacement_body a b = [] \<or> last (replacement_body a b) = CHR ''>''"
    by (simp add: last_replacement_body)
  have e2: "template_escape 2 ''2'' = Inr ([TGroup 2], 1)"
    by (simp add: template_escape_def is_digit_def addgroup_def dec_val_def digit_val_def)
  have e4: "template_escape 4 ''4'' = Inr ([TGroup 4], 1)"
    by (simp add: template_escape_def is_digit_def addgroup_def dec_val_def digit_val_def)
  have p2: "\<exists>front. pattern = Open 1 # Lit ''<div class=\"books-list\">'' # front
               @ [Open 2, SpaceStar, Lit ''</main>'', Close 2]"
    by (simp add: pattern_def)
  have p4: "\<exists>front. pattern_simple = Open 1 # Lit ''<div class=\"books-list\">'' # front
               @ [Open 4, SpaceStar, Lit ''</main>'', Close 4]"
    by (simp add: pattern_simple_def)
  from assms obtain new_html where
    n: "re_sub pattern 2 (replacement a b) doc = Inr new_html"
    and o: "new_html \<noteq> doc \<and> out = new_html \<or>
            new_html = doc \<and> re_sub pattern_simple 4 (replacement_simple a b) doc = Inr out"
    by (auto simp: splice_def g split: sum.splits if_splits)
  from o show ?thesis
  proof
    assume "new_html \<noteq> doc \<and> out = new_html"
    with n have rs: "re_sub pattern 2 (replacement_body a b @ [CHR 0x5C, CHR ''2'']) doc = Inr out"
      by (simp add: replacement_def)
    from p2 obtain front where
      pf: "pattern = Open 1 # Lit ''<div class=\"books-list\">'' # front
               @ [Open 2, SpaceStar, Lit ''</main>'', Close 2]" by blast
    have "frame pattern 2 doc out"
      by (rule re_sub_frame [OF pf _ e2 body rs]) simp
    then show ?thesis ..
  next
    assume "new_html = doc \<and> re_sub pattern_simple 4 (replacement_simple a b) doc = Inr out"
    then have rs: "re_sub pattern_simple 4 (replacement_body a b @ [CHR 0x5C, CHR ''4'']) doc = Inr out"
      by (simp add: replacement_simple_def)
    from p4 obtain front where
      pf: "pattern_simple = Open 1 # Lit ''<div class=\"books-list\">'' # front
               @ [Open 4, SpaceStar, Lit ''</main>'', Close 4]" by blast
    have "frame pattern_simple 4 doc out"
      by (rule re_sub_frame [OF pf _ e4 body rs]) simp
    then show ?thesis ..
  qed
qed


theorem splice_frame_witness:
  "splice [\<lparr> rating = ''5'', date_read = ''2024'', title = ''T & <U>'', author = ''A'', description = ''D'' \<rparr>]
     ''<html><main><div class=\"books-list\"><ul><li>old</li></ul></div> </main><p>end</p></html>'' =
   Inr (''<html><main>''
        @ replacement_body
            (summary_item \<lparr> rating = ''5'', date_read = ''2024'', title = ''T & <U>'', author = ''A'', description = ''D'' \<rparr>)
            (detail_item \<lparr> rating = ''5'', date_read = ''2024'', title = ''T & <U>'', author = ''A'', description = ''D'' \<rparr>)
        @ '' </main>'' @ ''<p>end</p></html>'') \<and>
   (frame pattern 2
      ''<html><main><div class=\"books-list\"><ul><li>old</li></ul></div> </main><p>end</p></html>''
      (''<html><main>''
        @ replacement_body
            (summary_item \<lparr> rating = ''5'', date_read = ''2024'', title = ''T & <U>'', author = ''A'', description = ''D'' \<rparr>)
            (detail_item \<lparr> rating = ''5'', date_read = ''2024'', title = ''T & <U>'', author = ''A'', description = ''D'' \<rparr>)
        @ '' </main>'' @ ''<p>end</p></html>'') \<or>
    frame pattern_simple 4
      ''<html><main><div class=\"books-list\"><ul><li>old</li></ul></div> </main><p>end</p></html>''
      (''<html><main>''
        @ replacement_body
            (summary_item \<lparr> rating = ''5'', date_read = ''2024'', title = ''T & <U>'', author = ''A'', description = ''D'' \<rparr>)
            (detail_item \<lparr> rating = ''5'', date_read = ''2024'', title = ''T & <U>'', author = ''A'', description = ''D'' \<rparr>)
        @ '' </main>'' @ ''<p>end</p></html>''))"
proof -
  have h: "splice [\<lparr> rating = ''5'', date_read = ''2024'', title = ''T & <U>'', author = ''A'', description = ''D'' \<rparr>]
     ''<html><main><div class=\"books-list\"><ul><li>old</li></ul></div> </main><p>end</p></html>'' =
   Inr (''<html><main>''
        @ replacement_body
            (summary_item \<lparr> rating = ''5'', date_read = ''2024'', title = ''T & <U>'', author = ''A'', description = ''D'' \<rparr>)
            (detail_item \<lparr> rating = ''5'', date_read = ''2024'', title = ''T & <U>'', author = ''A'', description = ''D'' \<rparr>)
        @ '' </main>'' @ ''<p>end</p></html>'')"
    by code_simp
  from splice_frame [OF h] h show ?thesis by blast
qed

end
